(* ===== verification/Rust_Text.thy ===== *)
theory Rust_Text
  imports Rust_Prelude
begin

text \<open>
  The text functions of the Rust standard library that the wire code calls: bytes and UTF-8
  (\<open>as_bytes\<close>, \<open>str::from_utf8\<close>, \<open>String::from_utf8_lossy\<close>), slicing by byte index (which
  panics off a character boundary), \<open>trim\<close>, \<open>to_string\<close> and \<open>parse\<close> of \<open>u64\<close> and \<open>i64\<close>,
  \<open>{:016x}\<close>, \<open>{:02x}\<close> and \<open>from_str_radix\<close>.
\<close>

type_synonym u8 = "8 word"
type_synonym u16 = "16 word"
type_synonym u64 = "64 word"
type_synonym i64 = "64 word"
type_synonym f64 = "64 word"

section \<open>Bytes and UTF-8\<close>

definition code :: "char \<Rightarrow> nat" where
  "code c = of_char c"

definition byte_of :: "char \<Rightarrow> u8" where
  "byte_of c = word_of_nat (code c)"

definition char_of_byte :: "u8 \<Rightarrow> char" where
  "char_of_byte w = char_of (unat w)"

definition as_bytes :: "string \<Rightarrow> u8 list" where
  "as_bytes s = map byte_of s"

definition of_bytes :: "u8 list \<Rightarrow> string" where
  "of_bytes bs = map char_of_byte bs"

lemma code_less [simp]: "code c < 256"
  by (simp add: code_def)

lemma code_inj: "code c = code d \<longleftrightarrow> c = d"
  by (simp add: code_def)

lemma unat_byte_of [simp]: "unat (byte_of c) = code c"
  by (simp add: byte_of_def unat_of_nat)

lemma char_of_byte_of [simp]: "char_of_byte (byte_of c) = c"
  by (simp add: char_of_byte_def) (simp add: code_def)

lemma byte_of_char_of_byte [simp]: "byte_of (char_of_byte w) = w"
proof -
  have "unat w < 256"
    using unsigned_less [of w, where ?'a = nat] by simp
  then have "code (char_of_byte w) = unat w"
    by (simp add: code_def char_of_byte_def)
  then show ?thesis
    by (simp add: byte_of_def)
qed

lemma of_bytes_as_bytes [simp]: "of_bytes (as_bytes s) = s"
  by (simp add: of_bytes_def as_bytes_def o_def)

lemma as_bytes_of_bytes [simp]: "as_bytes (of_bytes bs) = bs"
  by (simp add: of_bytes_def as_bytes_def o_def)

lemma length_as_bytes [simp]: "length (as_bytes s) = length s"
  by (simp add: as_bytes_def)

definition utf8_cont :: "char \<Rightarrow> bool" where
  "utf8_cont c \<longleftrightarrow> 128 \<le> code c \<and> code c \<le> 191"

definition utf8_lead :: "char \<Rightarrow> nat" where
  "utf8_lead c = (let b = code c in
     if b < 128 then 1 else if b < 194 then 0 else if b < 224 then 2
     else if b < 240 then 3 else if b < 245 then 4 else 0)"

definition utf8_second :: "char \<Rightarrow> char \<Rightarrow> bool" where
  "utf8_second c d = (let b = code c; x = code d in
     if b = 224 then 160 \<le> x \<and> x \<le> 191
     else if b = 237 then 128 \<le> x \<and> x \<le> 159
     else if b = 240 then 144 \<le> x \<and> x \<le> 191
     else if b = 244 then 128 \<le> x \<and> x \<le> 143
     else 128 \<le> x \<and> x \<le> 191)"

text \<open>
  \<open>utf8_scan s\<close> looks at the head of \<open>s\<close>: \<open>(True, n)\<close> when \<open>n\<close> bytes form a character,
  \<open>(False, n)\<close> when the longest ill-formed prefix (what the lossy decoder replaces) has
  \<open>n\<close> bytes.
\<close>

definition utf8_scan :: "string \<Rightarrow> bool \<times> nat" where
  "utf8_scan s = (case s of [] \<Rightarrow> (False, 1) | c # r \<Rightarrow>
     if utf8_lead c = 0 then (False, 1) else if utf8_lead c = 1 then (True, 1)
     else (case r of [] \<Rightarrow> (False, 1) | d # r1 \<Rightarrow>
       if \<not> utf8_second c d then (False, 1) else if utf8_lead c = 2 then (True, 2)
       else (case r1 of [] \<Rightarrow> (False, 2) | e # r2 \<Rightarrow>
         if \<not> utf8_cont e then (False, 2) else if utf8_lead c = 3 then (True, 3)
         else (case r2 of [] \<Rightarrow> (False, 3) | f # r3 \<Rightarrow>
           if utf8_cont f then (True, 4) else (False, 3)))))"

lemma utf8_scan_pos [simp]: "0 < snd (utf8_scan s)"
  by (simp add: utf8_scan_def split: list.splits)

lemma drop_scan_less: "s \<noteq> [] \<Longrightarrow> length (drop (snd (utf8_scan s)) s) < length s"
  using utf8_scan_pos [of s] by (cases s) (simp_all del: utf8_scan_pos)

lemma utf8_scan_le: "fst (utf8_scan s) \<Longrightarrow> snd (utf8_scan s) \<le> length s"
  by (auto simp: utf8_scan_def split: list.splits if_splits)

function utf8_valid :: "string \<Rightarrow> bool" where
  "utf8_valid s = (if s = [] then True
     else if fst (utf8_scan s) then utf8_valid (drop (snd (utf8_scan s)) s) else False)"
  by pat_completeness auto
termination
  by (relation "measure length") (use drop_scan_less in auto)

declare utf8_valid.simps [simp del]

function from_utf8_lossy :: "string \<Rightarrow> string" where
  "from_utf8_lossy s = (if s = [] then [] else
     (if fst (utf8_scan s) then take (snd (utf8_scan s)) s
      else [char_of (239::nat), char_of (191::nat), char_of (189::nat)])
     @ from_utf8_lossy (drop (snd (utf8_scan s)) s))"
  by pat_completeness auto
termination
  by (relation "measure length") (use drop_scan_less in auto)

declare from_utf8_lossy.simps [simp del]

lemma utf8_valid_Nil [simp]: "utf8_valid []"
  by (subst utf8_valid.simps) simp

lemma utf8_scan_ascii: "code c < 128 \<Longrightarrow> utf8_scan (c # s) = (True, 1)"
  by (simp add: utf8_scan_def utf8_lead_def)

lemma utf8_valid_ascii_Cons [simp]: "code c < 128 \<Longrightarrow> utf8_valid (c # s) = utf8_valid s"
  by (subst utf8_valid.simps) (simp add: utf8_scan_ascii)

lemma utf8_valid_ascii: "(\<And>c. c \<in> set s \<Longrightarrow> code c < 128) \<Longrightarrow> utf8_valid s"
  by (induction s) auto

lemma from_utf8_lossy_valid: "utf8_valid s \<Longrightarrow> from_utf8_lossy s = s"
proof (induction s rule: utf8_valid.induct)
  case (1 s)
  show ?case
  proof (cases "s = []")
    case True
    then show ?thesis by (simp add: from_utf8_lossy.simps)
  next
    case False
    with "1.prems" have "fst (utf8_scan s)" and "utf8_valid (drop (snd (utf8_scan s)) s)"
      by (simp_all add: utf8_valid.simps [of s] split: if_splits)
    with "1.IH" False show ?thesis
      by (simp add: from_utf8_lossy.simps [of s])
  qed
qed

lemma utf8_scan_append: "fst (utf8_scan s) \<Longrightarrow> utf8_scan (s @ t) = utf8_scan s"
proof -
  assume ok: "fst (utf8_scan s)"
  then obtain c r where s: "s = c # r"
    by (cases s) (simp_all add: utf8_scan_def)
  show ?thesis
  proof (cases "utf8_lead c = 1")
    case True
    then show ?thesis by (simp add: s utf8_scan_def)
  next
    case False
    with ok obtain d r1 where r: "r = d # r1"
      by (cases r) (simp_all add: s utf8_scan_def split: if_splits)
    show ?thesis
    proof (cases r1)
      case Nil
      with ok False show ?thesis by (simp add: s r utf8_scan_def split: if_splits)
    next
      case (Cons e r2)
      with ok False show ?thesis
        by (cases r2) (simp_all add: s r utf8_scan_def split: if_splits)
    qed
  qed
qed

lemma utf8_scan_take:
  "fst (utf8_scan s) \<Longrightarrow> utf8_scan (take (snd (utf8_scan s)) s) = (True, snd (utf8_scan s))"
proof -
  assume ok: "fst (utf8_scan s)"
  then obtain c r where s: "s = c # r"
    by (cases s) (simp_all add: utf8_scan_def)
  show ?thesis
  proof (cases "utf8_lead c = 1")
    case True
    then show ?thesis by (simp add: s utf8_scan_def)
  next
    case False
    with ok obtain d r1 where r: "r = d # r1"
      by (cases r) (simp_all add: s utf8_scan_def split: if_splits)
    show ?thesis
    proof (cases r1)
      case Nil
      with ok False show ?thesis by (simp add: s r utf8_scan_def split: if_splits)
    next
      case (Cons e r2)
      with ok False show ?thesis
        by (cases r2) (simp_all add: s r utf8_scan_def split: if_splits)
    qed
  qed
qed

lemma utf8_valid_append: "utf8_valid s \<Longrightarrow> utf8_valid t \<Longrightarrow> utf8_valid (s @ t)"
proof (induction s rule: utf8_valid.induct)
  case (1 s)
  show ?case
  proof (cases "s = []")
    case True
    with "1.prems" show ?thesis by simp
  next
    case False
    with "1.prems" have ok: "fst (utf8_scan s)" and "utf8_valid (drop (snd (utf8_scan s)) s)"
      by (simp_all add: utf8_valid.simps [of s] split: if_splits)
    with "1.IH" "1.prems"(2) False have rest: "utf8_valid (drop (snd (utf8_scan s)) s @ t)"
      by simp
    have "utf8_scan (s @ t) = utf8_scan s"
      by (rule utf8_scan_append [OF ok])
    with ok rest utf8_scan_le [OF ok] show ?thesis
      by (simp add: utf8_valid.simps [of "s @ t"])
  qed
qed

lemma utf8_replacement_valid: "utf8_valid [char_of (239::nat), char_of (191::nat), char_of (189::nat)]"
  by (subst utf8_valid.simps)
    (simp add: utf8_scan_def utf8_lead_def utf8_second_def utf8_cont_def code_def)

lemma utf8_valid_char: "s \<noteq> [] \<Longrightarrow> fst (utf8_scan s) \<Longrightarrow> utf8_valid (take (snd (utf8_scan s)) s)"
  using utf8_scan_take [of s] by (subst utf8_valid.simps) simp

text \<open>Whatever bytes arrive, the lossy decoder returns a valid string.\<close>

lemma from_utf8_lossy_utf8: "utf8_valid (from_utf8_lossy s)"
proof (induction s rule: from_utf8_lossy.induct)
  case (1 s)
  show ?case
  proof (cases "s = []")
    case True
    then show ?thesis by (simp add: from_utf8_lossy.simps)
  next
    case False
    let ?hd = "if fst (utf8_scan s) then take (snd (utf8_scan s)) s
      else [char_of (239::nat), char_of (191::nat), char_of (189::nat)]"
    have "utf8_valid ?hd"
      using False by (simp add: utf8_valid_char utf8_replacement_valid)
    then have "utf8_valid (?hd @ from_utf8_lossy (drop (snd (utf8_scan s)) s))"
      by (rule utf8_valid_append) (rule "1.IH" [OF False])
    then show ?thesis
      using False by (simp add: from_utf8_lossy.simps [of s])
  qed
qed

definition from_utf8 :: "u8 list \<Rightarrow> string option" where
  "from_utf8 bs = (if utf8_valid (of_bytes bs) then Some (of_bytes bs) else None)"

section \<open>Slices\<close>

definition is_char_boundary :: "string \<Rightarrow> nat \<Rightarrow> bool" where
  "is_char_boundary s i \<longleftrightarrow> i = 0 \<or> i = length s \<or> (i < length s \<and> \<not> utf8_cont (s ! i))"

definition str_slice :: "string \<Rightarrow> nat \<Rightarrow> nat \<Rightarrow> (string, 'e) result" where
  "str_slice s a b = (if a \<le> b \<and> b \<le> length s \<and> is_char_boundary s a \<and> is_char_boundary s b
     then Ok (take (b - a) (drop a s)) else Panic)"

definition ascii :: "string \<Rightarrow> bool" where
  "ascii s \<longleftrightarrow> list_all (\<lambda>c. code c < 128) s"

lemma ascii_simps [simp]:
  "ascii []" "ascii (c # s) \<longleftrightarrow> code c < 128 \<and> ascii s" "ascii (s @ t) \<longleftrightarrow> ascii s \<and> ascii t"
  by (auto simp: ascii_def)

lemma ascii_boundary:
  assumes "ascii s" and "i \<le> length s"
  shows "is_char_boundary s i"
proof (cases "i < length s")
  case True
  then have "code (s ! i) < 128"
    using assms(1) by (simp add: ascii_def list_all_length)
  with True show ?thesis
    by (simp add: is_char_boundary_def utf8_cont_def)
next
  case False
  with assms(2) show ?thesis by (simp add: is_char_boundary_def)
qed

lemma str_slice_ascii:
  "ascii s \<Longrightarrow> a \<le> b \<Longrightarrow> b \<le> length s \<Longrightarrow> str_slice s a b = Ok (take (b - a) (drop a s))"
  by (simp add: str_slice_def ascii_boundary)

text \<open>In a valid string there is a character boundary before and after every ASCII character.\<close>

lemma utf8_valid_head: "utf8_valid (c # s) \<Longrightarrow> \<not> utf8_cont c"
  by (subst (asm) utf8_valid.simps) (auto simp: utf8_scan_def utf8_lead_def utf8_cont_def Let_def split: if_splits)

lemma utf8_scan_wide:
  assumes "fst (utf8_scan s)" "snd (utf8_scan s) \<noteq> 1" "i < snd (utf8_scan s)"
  shows "128 \<le> code (s ! i)"
proof -
  obtain c d r where s: "s = c # d # r"
    using assms(1,2) by (cases s; cases "tl s") (auto simp: utf8_scan_def split: if_splits)
  have lead: "128 \<le> code c" "128 \<le> code d"
    using assms(1,2) by (auto simp: s utf8_scan_def utf8_lead_def utf8_second_def Let_def split: if_splits list.splits)
  consider "i = 0" | "i = 1" | e r2 where "i = 2" "r = e # r2" "utf8_cont e" | e f r3 where "i = 3" "r = e # f # r3" "utf8_cont f"
    using assms by (auto simp: s utf8_scan_def less_Suc_eq numeral_eq_Suc split: if_splits list.splits)
  then show ?thesis
    by cases (use lead in \<open>auto simp: s utf8_cont_def numeral_eq_Suc\<close>)
qed

lemma utf8_valid_after_ascii:
  "utf8_valid s \<Longrightarrow> Suc i < length s \<Longrightarrow> code (s ! i) < 128 \<Longrightarrow> \<not> utf8_cont (s ! Suc i)"
proof (induction s arbitrary: i rule: utf8_valid.induct)
  case (1 s)
  then have s: "s \<noteq> []" "fst (utf8_scan s)" "utf8_valid (drop (snd (utf8_scan s)) s)"
    by (auto simp: utf8_valid.simps [of s] split: if_splits)
  let ?n = "snd (utf8_scan s)"
  consider (inside) "i < ?n" "?n \<noteq> 1" | (first) "?n = 1" "i = 0" | (later) "?n \<le> i"
    by linarith
  then show ?case
  proof cases
    case inside
    with utf8_scan_wide [OF s(2)] "1.prems"(3) show ?thesis by (meson not_less)
  next
    case first
    with s(3) "1.prems"(2) have "utf8_valid (s ! 1 # drop 2 s)"
      by (metis Cons_nth_drop_Suc One_nat_def Suc_1)
    with first utf8_valid_head show ?thesis by simp
  next
    case later
    with "1.IH" [OF s, of "i - ?n"] "1.prems" show ?thesis
      by (simp add: Suc_diff_le nth_drop le_add_diff_inverse)
  qed
qed

section \<open>White space\<close>

text \<open>
  \<open>str::trim\<close> strips the Unicode \<open>White_Space\<close> characters at both ends.  \<open>ws_head\<close> is the
  number of bytes of a white-space character at the head of the string (0 if there is none);
  \<open>ws_last\<close> is the same at the end, on the reversed string.
\<close>

definition ascii_ws :: "char \<Rightarrow> bool" where
  "ascii_ws c \<longleftrightarrow> (9 \<le> code c \<and> code c \<le> 13) \<or> code c = 32"

definition ws2 :: "char \<Rightarrow> char \<Rightarrow> bool" where
  "ws2 a b \<longleftrightarrow> code a = 194 \<and> (code b = 133 \<or> code b = 160)"

definition ws3 :: "char \<Rightarrow> char \<Rightarrow> char \<Rightarrow> bool" where
  "ws3 a b c \<longleftrightarrow>
     (code a = 225 \<and> code b = 154 \<and> code c = 128)
   \<or> (code a = 226 \<and> code b = 128 \<and> (128 \<le> code c \<and> code c \<le> 138 \<or> code c \<in> {168, 169, 175}))
   \<or> (code a = 226 \<and> code b = 129 \<and> code c = 159)
   \<or> (code a = 227 \<and> code b = 128 \<and> code c = 128)"

fun trim_start :: "string \<Rightarrow> string" where
  "trim_start (a # b # c # r) =
     (if ascii_ws a then trim_start (b # c # r) else if ws2 a b then trim_start (c # r)
      else if ws3 a b c then trim_start r else a # b # c # r)"
| "trim_start [a, b] =
     (if ascii_ws a then trim_start [b] else if ws2 a b then [] else [a, b])"
| "trim_start [a] = (if ascii_ws a then [] else [a])"
| "trim_start [] = []"

fun trim_end_rev :: "string \<Rightarrow> string" where
  "trim_end_rev (c # b # a # r) =
     (if ascii_ws c then trim_end_rev (b # a # r) else if ws2 b c then trim_end_rev (a # r)
      else if ws3 a b c then trim_end_rev r else c # b # a # r)"
| "trim_end_rev [c, b] =
     (if ascii_ws c then trim_end_rev [b] else if ws2 b c then [] else [c, b])"
| "trim_end_rev [c] = (if ascii_ws c then [] else [c])"
| "trim_end_rev [] = []"

definition trim :: "string \<Rightarrow> string" where
  "trim s = rev (trim_end_rev (rev (trim_start s)))"

definition printable :: "string \<Rightarrow> bool" where
  "printable s \<longleftrightarrow> list_all (\<lambda>c. 33 \<le> code c \<and> code c < 127) s"

lemma printable_simps [simp]:
  "printable []" "printable (c # s) \<longleftrightarrow> 33 \<le> code c \<and> code c < 127 \<and> printable s"
  "printable (s @ t) \<longleftrightarrow> printable s \<and> printable t" "printable (rev s) = printable s"
  by (auto simp: printable_def)

lemma printable_ascii: "printable s \<Longrightarrow> ascii s"
  by (induction s) auto

lemma trim_start_printable: "printable s \<Longrightarrow> trim_start s = s"
  by (cases s rule: trim_start.cases) (auto simp: ascii_ws_def ws2_def ws3_def)

lemma trim_end_printable: "printable s \<Longrightarrow> trim_end_rev s = s"
  by (cases s rule: trim_end_rev.cases) (auto simp: ascii_ws_def ws2_def ws3_def)

lemma trim_printable: "printable s \<Longrightarrow> trim s = s"
  by (simp add: trim_def trim_start_printable trim_end_printable)

section \<open>Digits\<close>

definition digit_char :: "nat \<Rightarrow> char" where
  "digit_char d = char_of (if d < 10 then 48 + d else 87 + d)"

definition to_digit :: "nat \<Rightarrow> char \<Rightarrow> nat option" where
  "to_digit radix c = (let n = code c;
      d = (if 48 \<le> n \<and> n \<le> 57 then n - 48 else if 97 \<le> n \<and> n \<le> 122 then n - 87
           else if 65 \<le> n \<and> n \<le> 90 then n - 55 else radix)
    in if d < radix then Some d else None)"

fun digits_value :: "nat \<Rightarrow> nat \<Rightarrow> string \<Rightarrow> nat option" where
  "digits_value radix acc [] = Some acc"
| "digits_value radix acc (c # cs) =
     (case to_digit radix c of None \<Rightarrow> None
      | Some d \<Rightarrow> digits_value radix (acc * radix + d) cs)"

text \<open>
  \<open>uN::from_str_radix\<close> (and \<open>parse\<close>, which is radix 10): an optional \<open>+\<close>, at least one
  digit, and no overflow of the maximum.
\<close>

definition from_str_radix :: "nat \<Rightarrow> nat \<Rightarrow> string \<Rightarrow> nat option" where
  "from_str_radix radix bound s =
     (let ds = (case s of [] \<Rightarrow> [] | c # cs \<Rightarrow> if c = CHR ''+'' then cs else s)
      in if ds = [] then None
         else (case digits_value radix 0 ds of None \<Rightarrow> None
               | Some n \<Rightarrow> if n < bound then Some n else None))"

definition parse_u64 :: "string \<Rightarrow> u64 option" where
  "parse_u64 s = map_option word_of_nat (from_str_radix 10 (2 ^ 64) s)"

definition parse_i64 :: "string \<Rightarrow> i64 option" where
  "parse_i64 s =
     (case s of
        [] \<Rightarrow> None
      | c # cs \<Rightarrow>
          if c = CHR ''-'' then
            (if cs = [] \<or> hd cs = CHR ''+'' then None
             else map_option (\<lambda>n. - word_of_nat n) (from_str_radix 10 (2 ^ 63 + 1) cs))
          else map_option word_of_nat (from_str_radix 10 (2 ^ 63) s))"

fun show_nat :: "nat \<Rightarrow> string" where
  "show_nat n = (if n < 10 then [digit_char n] else show_nat (n div 10) @ [digit_char (n mod 10)])"

declare show_nat.simps [simp del]

definition show_u64 :: "u64 \<Rightarrow> string" where
  "show_u64 w = show_nat (unat w)"

definition show_i64 :: "i64 \<Rightarrow> string" where
  "show_i64 w = (if sint w < 0 then CHR ''-'' # show_nat (nat (- sint w)) else show_nat (nat (sint w)))"

fun hex_pad :: "nat \<Rightarrow> nat \<Rightarrow> string" where
  "hex_pad 0 v = []"
| "hex_pad (Suc n) v = hex_pad n (v div 16) @ [digit_char (v mod 16)]"

lemma code_digit_char: "d < 16 \<Longrightarrow> code (digit_char d) = (if d < 10 then 48 + d else 87 + d)"
  by (simp add: code_def digit_char_def)

lemma to_digit_digit_char: "d < radix \<Longrightarrow> radix \<le> 16 \<Longrightarrow> to_digit radix (digit_char d) = Some d"
  by (simp add: to_digit_def code_digit_char)

lemma digits_value_append:
  "digits_value r a (s @ t) = Option.bind (digits_value r a s) (\<lambda>b. digits_value r b t)"
  by (induction s arbitrary: a) (auto split: option.splits)

lemma length_hex_pad [simp]: "length (hex_pad n v) = n"
  by (induction n arbitrary: v) auto

lemma digits_value_hex_pad:
  "digits_value 16 a (hex_pad n v) = Some (a * 16 ^ n + v mod 16 ^ n)"
proof (induction n arbitrary: v)
  case 0
  then show ?case by simp
next
  case (Suc n)
  have "v mod 16 ^ Suc n = (v div 16) mod 16 ^ n * 16 + v mod 16"
    by (simp add: mod_mult2_eq ac_simps)
  with Suc [of "v div 16"] show ?case
    by (simp add: digits_value_append to_digit_digit_char algebra_simps)
qed

lemma digit_char_printable: "d < 16 \<Longrightarrow> printable [digit_char d]"
  by (auto simp: code_digit_char)

lemma hex_pad_printable: "printable (hex_pad n v)"
  by (induction n arbitrary: v) (simp_all add: digit_char_printable del: printable_simps(2))

lemma show_nat_printable: "printable (show_nat n)"
proof (induction n rule: show_nat.induct)
  case (1 n)
  then show ?case
    by (cases "n < 10")
      (simp_all add: show_nat.simps [of n] digit_char_printable del: printable_simps(2))
qed

lemma show_nat_nonempty [simp]: "show_nat n \<noteq> []"
  by (subst show_nat.simps) simp

lemma digits_value_show_nat: "digits_value 10 0 (show_nat n) = Some n"
proof (induction n rule: show_nat.induct)
  case (1 n)
  then show ?case
    by (cases "n < 10")
      (simp_all add: show_nat.simps [of n] digits_value_append to_digit_digit_char)
qed

lemma no_plus:
  assumes "digits_value r a (c # cs) = Some n" and "r \<le> 36"
  shows "c \<noteq> CHR ''+''"
  using assms by (auto simp: to_digit_def code_def Let_def split: if_splits)

lemma from_str_radix_digits:
  assumes "digits_value r 0 s = Some n" and "s \<noteq> []" and "r \<le> 36" and "n < bound"
  shows "from_str_radix r bound s = Some n"
  using assms no_plus [of r 0 "hd s" "tl s" n]
  by (cases s) (simp_all add: from_str_radix_def)

lemma parse_u64_show [simp]: "parse_u64 (show_u64 w) = Some w"
  using unsigned_less [of w, where ?'a = nat]
  by (simp add: parse_u64_def show_u64_def from_str_radix_digits digits_value_show_nat)

lemma hd_show_nat: "hd (show_nat n) \<noteq> CHR ''+'' \<and> hd (show_nat n) \<noteq> CHR ''-''"
proof (induction n rule: show_nat.induct)
  case (1 n)
  then show ?case
    using code_digit_char [of n]
    by (cases "n < 10") (auto simp: show_nat.simps [of n] code_def)
qed

lemma parse_u64_nat: "n < 2 ^ 64 \<Longrightarrow> from_str_radix 10 (2 ^ 64) (show_nat n) = Some n"
  by (simp add: from_str_radix_digits digits_value_show_nat)

lemma parse_i64_show [simp]: "parse_i64 (show_i64 w) = Some w"
proof -
  have range: "- (2 ^ 63) \<le> sint w" "sint w < 2 ^ 63"
    using sint_ge [of w] sint_lt [of w] by simp_all
  show ?thesis
  proof (cases "sint w < 0")
    case True
    let ?n = "nat (- sint w)"
    have "from_str_radix 10 (2 ^ 63 + 1) (show_nat ?n) = Some ?n"
      using range True by (intro from_str_radix_digits) (simp_all add: digits_value_show_nat)
    moreover have "- word_of_nat ?n = w"
      using True by (simp add: word_of_int_nat [symmetric] flip: of_int_minus)
    ultimately show ?thesis
      using True hd_show_nat [of ?n] by (simp add: show_i64_def parse_i64_def)
  next
    case False
    let ?n = "nat (sint w)"
    have "from_str_radix 10 (2 ^ 63) (show_nat ?n) = Some ?n"
      using range False by (intro from_str_radix_digits) (simp_all add: digits_value_show_nat)
    moreover have "word_of_nat ?n = w"
      using False by (simp add: word_of_int_nat [symmetric])
    ultimately show ?thesis
      using False hd_show_nat [of ?n]
      by (cases "show_nat ?n") (simp_all add: show_i64_def parse_i64_def)
  qed
qed

end
