(* ===== verification/Pipeline_Error.thy ===== *)
theory Pipeline_Error
  imports Rust_Text
begin

text \<open>
  \<open>src/error.rs\<close>: the error type shared by every stage, and its \<open>Display\<close> (the
  \<open>#[error("...")]\<close> literals with the values they interpolate).
\<close>

datatype pipeline_error =
    Repair message
  | EnvelopeParse message
  | MissingMeta string
  | Validation message
  | NoRoute string
  | PeerViolation string string "string list"
  | UnknownThread string
  | ChainExhausted string
  | HandlerError message
  | HandlerPanic message
  | Config message
  | Serialization message
  | Xml message

fun nest_message :: "string \<Rightarrow> message \<Rightarrow> message" where
  "nest_message prefix (Msg fmt args) = Msg (prefix @ fmt) args"

fun pipeline_error_display :: "pipeline_error \<Rightarrow> message" where
  "pipeline_error_display (Repair m) = nest_message ''repair failed: '' m"
| "pipeline_error_display (EnvelopeParse m) = nest_message ''envelope parse error: '' m"
| "pipeline_error_display (MissingMeta f) = Msg ''missing meta field: {0}'' [f]"
| "pipeline_error_display (Validation m) = nest_message ''validation failed: '' m"
| "pipeline_error_display (NoRoute k) = Msg ''no route for: {0}'' [k]"
| "pipeline_error_display (PeerViolation f t allowed) =
     Msg ''peer violation: {from} cannot message {to} (allowed: {allowed:?})'' (f # t # allowed)"
| "pipeline_error_display (UnknownThread t) = Msg ''unknown thread: {0}'' [t]"
| "pipeline_error_display (ChainExhausted t) = Msg ''thread chain exhausted: {0}'' [t]"
| "pipeline_error_display (HandlerError m) = nest_message ''handler error: '' m"
| "pipeline_error_display (HandlerPanic m) = nest_message ''handler panicked: '' m"
| "pipeline_error_display (Config m) = nest_message ''config error: '' m"
| "pipeline_error_display (Serialization m) = nest_message ''serialization error: '' m"
| "pipeline_error_display (Xml m) = nest_message ''xml error: '' m"

end
