(* ===== verification/Wire_Address.thy ===== *)
theory Wire_Address
  imports Pipeline_Error
begin

text \<open>
  The addressing half of \<open>src/wire.rs\<close>: segments, hierarchical addresses, their parser and
  \<open>Display\<close>, and the accessors the router, the switchboard and the federation read.  The
  lemmas show that printing and parsing are inverse to each other and on which addresses.
\<close>

section \<open>Types\<close>

datatype address_error =
    EmptyAddress
  | EmptySegment string
  | Unbalanced string
  | EmptyName string

fun address_error_display :: "address_error \<Rightarrow> message" where
  "address_error_display EmptyAddress = Msg ''empty address'' []"
| "address_error_display (EmptySegment s) = Msg ''empty segment in address {0:?}'' [s]"
| "address_error_display (Unbalanced s) = Msg ''unbalanced '[' / ']' in address {0:?}'' [s]"
| "address_error_display (EmptyName s) = Msg ''empty segment name in address {0:?}'' [s]"

definition pipeline_error_of_address :: "address_error \<Rightarrow> pipeline_error" where
  "pipeline_error_of_address e = EnvelopeParse (address_error_display e)"

record segment =
  seg_name :: string
  seg_key :: "string option"

record address =
  segments :: "segment list"

definition seg_cache_keys :: "segment \<Rightarrow> string list" where
  "seg_cache_keys s = (case seg_key s of
     Some k \<Rightarrow> filter (\<lambda>p. p \<noteq> []) (split_on (CHR ''+'') k)
   | None \<Rightarrow> [])"

definition flat :: "string \<Rightarrow> address" where
  "flat n = \<lparr>segments = [\<lparr>seg_name = n, seg_key = None\<rparr>]\<rparr>"

section \<open>Parsing and printing\<close>

text \<open>\<open>From<&str>\<close> and \<open>From<String>\<close>: the text is one flat name, it is not parsed.\<close>

definition address_from :: "string \<Rightarrow> address" where
  "address_from s = flat s"

definition parse_segment :: "string \<Rightarrow> string \<Rightarrow> (segment, address_error) result" where
  "parse_segment raw whole =
     (if raw = [] then Err (EmptySegment whole)
      else if CHR ''['' \<in> set raw then
        (let name = takeWhile (\<lambda>c. c \<noteq> CHR ''['') raw in
         if name = [] then Err (EmptyName whole)
         else if last raw \<noteq> CHR '']'' then Err (Unbalanced whole)
         else Ok \<lparr>seg_name = name, seg_key = Some (butlast (drop (length name + 1) raw))\<rparr>)
      else Ok \<lparr>seg_name = raw, seg_key = None\<rparr>)"

text \<open>
  The slices \<open>&raw[..open]\<close> and \<open>&raw[open + 1..raw.len() - 1]\<close> are written with list functions:
  in a valid string that has an opening bracket and ends with a closing one, both lie on character
  boundaries and are these lists, so the source does not panic there either.
\<close>

lemma parse_segment_slices:
  assumes "utf8_valid raw" "CHR ''['' \<in> set raw" "last raw = CHR '']''"
    and "name = takeWhile (\<lambda>c. c \<noteq> CHR ''['') raw"
  shows "str_slice raw 0 (length name) = Ok name"
    "str_slice raw (length name + 1) (length raw - 1) = Ok (butlast (drop (length name + 1) raw))"
proof -
  from assms(2) obtain pre post where split: "raw = pre @ CHR ''['' # post" "CHR ''['' \<notin> set pre"
    by (meson split_list_first)
  then have "takeWhile (\<lambda>c. c \<noteq> CHR ''['') raw = pre"
    by (simp add: takeWhile_append)
  with split(1) have raw: "raw = name @ CHR ''['' # post"
    unfolding assms(4) by simp
  with assms(3) have "post \<noteq> []" "last post = CHR '']''"
    by (auto split: if_splits)
  then obtain key where post: "post = key @ '']''"
    by (metis append_butlast_last_id)
  have len: "raw = name @ CHR ''['' # key @ '']''" "length raw = length name + length key + 2"
    by (simp_all add: raw post)
  have at: "raw ! length name = CHR ''[''" "raw ! (length raw - 1) = CHR '']''"
    unfolding len(2) by (simp_all add: len(1) nth_append)
  have "is_char_boundary raw 0" "is_char_boundary raw (length name)" "is_char_boundary raw (length raw - 1)"
    using at len(2) by (simp_all add: is_char_boundary_def utf8_cont_def code_def)
  moreover have "is_char_boundary raw (length name + 1)"
    using utf8_valid_after_ascii [OF assms(1), of "length name"] at len(2) by (simp add: is_char_boundary_def code_def)
  ultimately show "str_slice raw 0 (length name) = Ok name"
    "str_slice raw (length name + 1) (length raw - 1) = Ok (butlast (drop (length name + 1) raw))"
    by (simp_all add: str_slice_def) (simp_all add: len(1) butlast_append)
qed

text \<open>
  The character loop of \<open>Address::parse\<close>: the characters still to read, the bracket depth,
  the segment under construction and the segments so far.  (The source counts the depth in an
  \<open>i32\<close>; a string has fewer than \<open>2 ^ 31\<close> brackets.)
\<close>

fun parse_loop ::
    "string \<Rightarrow> string \<Rightarrow> int \<Rightarrow> string \<Rightarrow> segment list \<Rightarrow> (segment list, address_error) result" where
  "parse_loop whole [] depth current segs =
     (if depth \<noteq> 0 then Err (Unbalanced whole)
      else bindR (parse_segment current whole) (\<lambda>s. Ok (segs @ [s])))"
| "parse_loop whole (ch # rest) depth current segs =
     (if ch = CHR ''['' then parse_loop whole rest (depth + 1) (current @ [ch]) segs
      else if ch = CHR '']'' then
        (if depth - 1 < 0 then Err (Unbalanced whole)
         else parse_loop whole rest (depth - 1) (current @ [ch]) segs)
      else if ch = CHR ''.'' \<and> depth = 0 then
        bindR (parse_segment current whole) (\<lambda>s. parse_loop whole rest depth [] (segs @ [s]))
      else parse_loop whole rest depth (current @ [ch]) segs)"

definition parse_address :: "string \<Rightarrow> (address, address_error) result" where
  "parse_address s =
     (if s = [] then Err EmptyAddress
      else bindR (parse_loop s s 0 [] []) (\<lambda>segs. Ok \<lparr>segments = segs\<rparr>))"

definition seg_display :: "segment \<Rightarrow> string" where
  "seg_display s = seg_name s @ (case seg_key s of None \<Rightarrow> [] | Some k \<Rightarrow> ''['' @ k @ '']'')"

definition address_display :: "address \<Rightarrow> string" where
  "address_display a = join_with ''.'' (map seg_display (segments a))"

section \<open>Accessors\<close>

fun position :: "('a \<Rightarrow> bool) \<Rightarrow> 'a list \<Rightarrow> nat option" where
  "position p [] = None"
| "position p (x # xs) = (if p x then Some 0 else map_option Suc (position p xs))"

definition get_at :: "'a list \<Rightarrow> nat \<Rightarrow> 'a option" where
  "get_at xs i = (if i < length xs then Some (xs ! i) else None)"

definition target :: "address \<Rightarrow> string option" where
  "target a = (if segments a = [] then None else Some (seg_name (last (segments a))))"

definition organism_index :: "address \<Rightarrow> nat" where
  "organism_index a =
     (case position (\<lambda>s. seg_key s \<noteq> None) (segments a) of None \<Rightarrow> 0 | Some i \<Rightarrow> i)"

definition organism :: "address \<Rightarrow> string option" where
  "organism a = map_option seg_name (get_at (segments a) (organism_index a))"

definition namespace :: "address \<Rightarrow> string option" where
  "namespace a = (if organism_index a > 0 then Some (seg_name (segments a ! 0)) else None)"

definition node :: "address \<Rightarrow> string option" where
  "node a = map_option seg_name (get_at (segments a) 0)"

definition instance_key :: "address \<Rightarrow> string option" where
  "instance_key a = Option.bind (get_at (segments a) (organism_index a)) seg_key"

definition cache_keys :: "address \<Rightarrow> string list" where
  "cache_keys a = (case get_at (segments a) (organism_index a) of
     Some s \<Rightarrow> seg_cache_keys s | None \<Rightarrow> [])"

definition buffer :: "address \<Rightarrow> segment option" where
  "buffer a = get_at (segments a) (organism_index a + 1)"

text \<open>The inclusive slice \<open>segments[..=i]\<close> panics when \<open>i\<close> is out of range.\<close>

definition instance_address :: "address \<Rightarrow> (address, 'e) result" where
  "instance_address a =
     (let i = organism_index a in
      if i < length (segments a) then Ok \<lparr>segments = take (i + 1) (segments a)\<rparr> else Panic)"

section \<open>Printing what was parsed\<close>

lemma parse_segment_display: "parse_segment raw whole = Ok s \<Longrightarrow> seg_display s = raw"
proof -
  assume ok: "parse_segment raw whole = Ok s"
  show ?thesis
  proof (cases "CHR ''['' \<in> set raw")
    case False
    with ok show ?thesis
      by (auto simp: parse_segment_def seg_display_def split: if_splits)
  next
    case True
    then obtain pre post where raw: "raw = pre @ CHR ''['' # post" and pre: "CHR ''['' \<notin> set pre"
      by (meson split_list_first)
    then have name: "takeWhile (\<lambda>c. c \<noteq> CHR ''['') raw = pre"
      by (simp add: takeWhile_append)
    with ok True raw have "last raw = CHR '']''" and s: "s = \<lparr>seg_name = pre, seg_key = Some (butlast post)\<rparr>"
      by (auto simp: parse_segment_def Let_def split: if_splits)
    with raw have "post \<noteq> []" and "last post = CHR '']''"
      by (auto split: if_splits)
    then have "post = butlast post @ '']''"
      by (metis append_butlast_last_id)
    with raw s show ?thesis
      by (simp add: seg_display_def)
  qed
qed

lemma parse_loop_display:
  "parse_loop whole cs d cur segs = Ok segs' \<Longrightarrow>
   join_with ''.'' (map seg_display segs') = join_with ''.'' (map seg_display segs @ [cur @ cs])"
proof (induction cs arbitrary: d cur segs)
  case Nil
  then show ?case
    by (auto simp: result_iffs split: if_splits dest: parse_segment_display)
next
  case (Cons c cs)
  show ?case
  proof (cases "c = CHR ''.'' \<and> d = 0")
    case True
    with Cons.prems obtain s where s: "parse_segment cur whole = Ok s"
      and rest: "parse_loop whole cs d [] (segs @ [s]) = Ok segs'"
      by (auto simp: result_iffs)
    have "join_with ''.'' (map seg_display segs') = join_with ''.'' (map seg_display segs @ [cur, cs])"
      using Cons.IH [OF rest] parse_segment_display [OF s] by simp
    also have "\<dots> = join_with ''.'' (map seg_display segs @ [cur @ CHR ''.'' # cs])"
      by (simp add: join_with_last2)
    finally show ?thesis
      using True by simp
  next
    case False
    with Cons show ?thesis
      by (fastforce split: if_splits)
  qed
qed

text \<open>Whatever text the parser accepts, printing the address gives that text back.\<close>

lemma address_display_parse: "parse_address s = Ok a \<Longrightarrow> address_display a = s"
  using parse_loop_display [of s s 0 "[]" "[]"]
  by (auto simp: parse_address_def address_display_def result_iffs split: if_splits)

section \<open>Parsing what was printed\<close>

text \<open>
  \<open>seg_scan d t\<close> is the bracket depth after reading \<open>t\<close> from depth \<open>d\<close>, when the parser reads
  all of \<open>t\<close> into one segment (no dot outside brackets, no unmatched closing bracket).
\<close>

fun seg_scan :: "int \<Rightarrow> string \<Rightarrow> int option" where
  "seg_scan d [] = Some d"
| "seg_scan d (c # cs) =
     (if c = CHR ''['' then seg_scan (d + 1) cs
      else if c = CHR '']'' then (if d - 1 < 0 then None else seg_scan (d - 1) cs)
      else if c = CHR ''.'' \<and> d = 0 then None else seg_scan d cs)"

definition wf_segment :: "segment \<Rightarrow> bool" where
  "wf_segment s \<longleftrightarrow> seg_name s \<noteq> [] \<and> CHR ''['' \<notin> set (seg_name s) \<and> seg_scan 0 (seg_display s) = Some 0"

definition wf_address :: "address \<Rightarrow> bool" where
  "wf_address a \<longleftrightarrow> segments a \<noteq> [] \<and> list_all wf_segment (segments a)"

lemma seg_scan_append:
  "seg_scan d (s @ t) = Option.bind (seg_scan d s) (\<lambda>e. seg_scan e t)"
  by (induction s arbitrary: d) auto

lemma parse_loop_scan:
  "seg_scan d t = Some e \<Longrightarrow>
   parse_loop whole (t @ cs) d cur segs = parse_loop whole cs e (cur @ t) segs"
  by (induction t arbitrary: d cur) (auto split: if_splits)

lemma parse_segment_wf: "wf_segment s \<Longrightarrow> parse_segment (seg_display s) whole = Ok s"
proof (cases "seg_key s")
  case None
  assume "wf_segment s"
  with None show ?thesis
    by (cases s) (simp add: wf_segment_def parse_segment_def seg_display_def)
next
  case (Some k)
  assume wf: "wf_segment s"
  then have "takeWhile (\<lambda>c. c \<noteq> CHR ''['') (seg_display s) = seg_name s"
    using Some by (simp add: wf_segment_def seg_display_def takeWhile_tail)
      (metis (mono_tags, lifting) takeWhile_eq_all_conv)
  with Some wf show ?thesis
    by (cases s) (simp add: wf_segment_def parse_segment_def seg_display_def)
qed

lemma parse_loop_wf:
  "ss \<noteq> [] \<Longrightarrow> list_all wf_segment ss \<Longrightarrow>
   parse_loop whole (join_with ''.'' (map seg_display ss)) 0 [] segs = Ok (segs @ ss)"
proof (induction ss arbitrary: segs)
  case Nil
  then show ?case by simp
next
  case (Cons s ss)
  then have s: "seg_scan 0 (seg_display s) = Some 0" "wf_segment s"
    by (simp_all add: wf_segment_def)
  show ?case
  proof (cases ss)
    case Nil
    then show ?thesis
      using parse_loop_scan [OF s(1), of whole "[]" "[]" segs] parse_segment_wf [OF s(2)] by simp
  next
    case (Cons s' ss')
    with Cons.IH [of "segs @ [s]"] Cons.prems show ?thesis
      using parse_loop_scan [OF s(1), of whole "CHR ''.'' # join_with ''.'' (map seg_display ss)" "[]" segs]
        parse_segment_wf [OF s(2)]
      by (simp add: join_with_Cons)
  qed
qed

lemma parse_address_display: "wf_address a \<Longrightarrow> parse_address (address_display a) = Ok a"
proof -
  assume wf: "wf_address a"
  then obtain s ss where ss: "segments a = s # ss"
    by (auto simp: wf_address_def neq_Nil_conv)
  with wf have "address_display a \<noteq> []"
    by (cases ss) (simp_all add: wf_address_def wf_segment_def address_display_def seg_display_def)
  then show ?thesis
    using wf parse_loop_wf [of "segments a" "address_display a" "[]"]
    by (simp add: parse_address_def wf_address_def address_display_def)
qed

text \<open>The parser only returns well-formed addresses.\<close>

lemma parse_segment_wf_range:
  "parse_segment raw whole = Ok s \<Longrightarrow> seg_scan 0 raw = Some 0 \<Longrightarrow> wf_segment s"
proof -
  assume ok: "parse_segment raw whole = Ok s" and scan: "seg_scan 0 raw = Some 0"
  have "seg_name s \<noteq> [] \<and> CHR ''['' \<notin> set (seg_name s)"
    using ok by (auto simp: parse_segment_def Let_def split: if_splits dest: set_takeWhileD)
  with parse_segment_display [OF ok] scan show ?thesis
    by (simp add: wf_segment_def)
qed

lemma parse_loop_wf_range:
  "parse_loop whole cs d cur segs = Ok segs' \<Longrightarrow> seg_scan 0 cur = Some d \<Longrightarrow>
   list_all wf_segment segs \<Longrightarrow> segs' \<noteq> [] \<and> list_all wf_segment segs'"
proof (induction cs arbitrary: d cur segs)
  case Nil
  then show ?case
    by (auto simp: result_iffs split: if_splits dest: parse_segment_wf_range)
next
  case (Cons c cs)
  show ?case
  proof (cases "c = CHR ''.'' \<and> d = 0")
    case True
    with Cons.prems obtain s where s: "parse_segment cur whole = Ok s"
      and rest: "parse_loop whole cs 0 [] (segs @ [s]) = Ok segs'"
      by (auto simp: result_iffs)
    have "wf_segment s"
      using parse_segment_wf_range [OF s] Cons.prems(2) True by simp
    with Cons.IH [OF rest] Cons.prems(3) show ?thesis by simp
  next
    case False
    with Cons show ?thesis
      by (simp add: seg_scan_append split: if_splits)
  qed
qed

lemma parse_address_wf: "parse_address s = Ok a \<Longrightarrow> wf_address a"
  using parse_loop_wf_range [of s s 0 "[]" "[]"]
  by (auto simp: parse_address_def wf_address_def result_iffs split: if_splits)

lemma parse_not_panic: "parse_address s \<noteq> Panic"
proof -
  have seg: "parse_segment r w \<noteq> Panic" for r w
    by (simp add: parse_segment_def Let_def)
  have "parse_loop w cs d cur segs \<noteq> Panic" for w cs d cur segs
    by (induction cs arbitrary: d cur segs) (auto simp: result_iffs seg)
  then show ?thesis
    by (simp add: parse_address_def result_iffs)
qed

section \<open>Flat addresses\<close>

definition plain_name :: "string \<Rightarrow> bool" where
  "plain_name n \<longleftrightarrow> n \<noteq> [] \<and> list_all (\<lambda>c. c \<noteq> CHR ''.'' \<and> c \<noteq> CHR ''['' \<and> c \<noteq> CHR '']'') n"

lemma seg_scan_plain:
  "list_all (\<lambda>c. c \<noteq> CHR ''.'' \<and> c \<noteq> CHR ''['' \<and> c \<noteq> CHR '']'') t \<Longrightarrow> seg_scan d t = Some d"
  by (induction t) auto

lemma wf_flat: "plain_name n \<Longrightarrow> wf_address (flat n)"
  by (auto simp: plain_name_def wf_address_def wf_segment_def flat_def seg_display_def
      seg_scan_plain list_all_iff)

lemma flat_simps [simp]:
  "segments (flat n) = [\<lparr>seg_name = n, seg_key = None\<rparr>]"
  "organism (flat n) = Some n" "node (flat n) = Some n" "target (flat n) = Some n"
  "namespace (flat n) = None" "instance_key (flat n) = None" "buffer (flat n) = None"
  "address_display (flat n) = n"
  by (simp_all add: flat_def organism_def node_def target_def namespace_def instance_key_def
      buffer_def organism_index_def get_at_def address_display_def seg_display_def)

lemma position_Some: "position p xs = Some i \<Longrightarrow> i < length xs \<and> p (xs ! i) \<and> (\<forall>j<i. \<not> p (xs ! j))"
proof (induction xs arbitrary: i)
  case Nil
  then show ?case by simp
next
  case (Cons x xs)
  show ?case
  proof (cases "p x")
    case True
    with Cons.prems show ?thesis by auto
  next
    case False
    with Cons obtain j where "position p xs = Some j" and "i = Suc j"
      by auto
    with Cons.IH [of j] False show ?thesis
      by (auto simp: less_Suc_eq_0_disj)
  qed
qed

lemma position_None: "position p xs = None \<longleftrightarrow> (\<forall>x \<in> set xs. \<not> p x)"
  by (induction xs) auto

lemma position_take: "position p xs = Some i \<Longrightarrow> position p (take (Suc i) xs) = Some i"
  by (induction xs arbitrary: i) (auto split: if_splits)

lemma organism_index_less: "segments a \<noteq> [] \<Longrightarrow> organism_index a < length (segments a)"
  by (auto simp: organism_index_def split: option.splits dest: position_Some)

lemma organism_index_take:
  "organism_index \<lparr>segments = take (Suc (organism_index a)) (segments a)\<rparr> = organism_index a"
proof (cases "position (\<lambda>s. seg_key s \<noteq> None) (segments a)")
  case None
  then have "position (\<lambda>s. seg_key s \<noteq> None) (take (Suc 0) (segments a)) = None"
    by (auto simp: position_None dest: in_set_takeD)
  with None show ?thesis by (simp add: organism_index_def)
next
  case (Some i)
  with position_take [OF Some] show ?thesis by (simp add: organism_index_def)
qed

lemma instance_address_accessors:
  assumes "instance_address a = Ok b"
  shows "organism b = organism a" and "instance_key b = instance_key a"
    and "namespace b = namespace a" and "node b = node a" and "buffer b = None"
    and "instance_address b = Ok b"
proof -
  from assms have i: "organism_index a < length (segments a)"
    and b: "b = \<lparr>segments = take (Suc (organism_index a)) (segments a)\<rparr>"
    by (auto simp: instance_address_def Let_def split: if_splits)
  have idx: "organism_index b = organism_index a"
    unfolding b by (rule organism_index_take)
  have len: "length (segments b) = Suc (organism_index a)"
    using i by (simp add: b)
  have nth: "segments b ! organism_index a = segments a ! organism_index a"
    and nth0: "segments b ! 0 = segments a ! 0"
    using i by (simp_all add: b)
  show "organism b = organism a" "instance_key b = instance_key a"
    and "namespace b = namespace a" and "node b = node a" and "buffer b = None"
    using i idx len nth nth0
    by (auto simp: organism_def instance_key_def namespace_def node_def buffer_def get_at_def)
  show "instance_address b = Ok b"
    using idx len by (cases b) (simp add: instance_address_def)
qed

end
