(* ===== verification/Wire_Types.thy ===== *)
theory Wire_Types
  imports Wire_Address
begin

unbundle bit_operations_syntax

text \<open>
  The value half of \<open>src/wire.rs\<close>: the 128-bit provenance label set, self-describing payload
  values, payloads, and the envelope.  Provenance is shown to be a set of labels: its word
  operations implement union, membership and intersection.  A float is its IEEE bit pattern.
\<close>

section \<open>Provenance\<close>

datatype provenance = Provenance (bits_lo: u64) (bits_hi: u64)

definition EMPTY :: provenance where
  "EMPTY = Provenance 0 0"

definition prov_set_bit :: "provenance \<Rightarrow> u8 \<Rightarrow> provenance" where
  "prov_set_bit p b =
     (if b < 64 then Provenance (bits_lo p OR push_bit (unat b) 1) (bits_hi p)
      else if b < 128 then Provenance (bits_lo p) (bits_hi p OR push_bit (unat (b - 64)) 1)
      else p)"

definition from_bit :: "u8 \<Rightarrow> provenance" where
  "from_bit b = prov_set_bit EMPTY b"

definition with_bit :: "provenance \<Rightarrow> u8 \<Rightarrow> provenance" where
  "with_bit p b = prov_set_bit p b"

definition prov_union :: "provenance \<Rightarrow> provenance \<Rightarrow> provenance" where
  "prov_union p q = Provenance (bits_lo p OR bits_lo q) (bits_hi p OR bits_hi q)"

definition union_with :: "provenance \<Rightarrow> provenance \<Rightarrow> provenance" where
  "union_with p q = Provenance (bits_lo p OR bits_lo q) (bits_hi p OR bits_hi q)"

definition prov_is_empty :: "provenance \<Rightarrow> bool" where
  "prov_is_empty p \<longleftrightarrow> bits_lo p = 0 \<and> bits_hi p = 0"

definition contains_bit :: "provenance \<Rightarrow> u8 \<Rightarrow> bool" where
  "contains_bit p b =
     (if b < 64 then bits_lo p AND push_bit (unat b) 1 \<noteq> 0
      else if b < 128 then bits_hi p AND push_bit (unat (b - 64)) 1 \<noteq> 0
      else False)"

definition intersects :: "provenance \<Rightarrow> provenance \<Rightarrow> bool" where
  "intersects p m \<longleftrightarrow> bits_lo p AND bits_lo m \<noteq> 0 \<or> bits_hi p AND bits_hi m \<noteq> 0"

text \<open>The set of labels a provenance value stands for.\<close>

definition prov_set :: "provenance \<Rightarrow> u8 set" where
  "prov_set p = {b. contains_bit p b}"

lemma mask_test: "(w::u64) AND push_bit n 1 \<noteq> 0 \<longleftrightarrow> bit w n"
proof
  assume "w AND push_bit n 1 \<noteq> 0"
  then obtain m where "bit (w AND push_bit n 1) m"
    by (auto simp: bit_eq_iff)
  then show "bit w n"
    by (auto simp: bit_simps)
next
  assume "bit w n"
  then have "n < 64" and "bit (w AND push_bit n 1) n"
    using bit_imp_le_length [of w n] by (auto simp: bit_simps)
  then show "w AND push_bit n 1 \<noteq> 0"
    by (auto simp: bit_eq_iff)
qed

lemma contains_bit_alt:
  "contains_bit p b \<longleftrightarrow> (if unat b < 64 then bit (bits_lo p) (unat b)
     else unat b < 128 \<and> bit (bits_hi p) (unat b - 64))"
proof -
  have "b < 64 \<longleftrightarrow> unat b < 64" "b < 128 \<longleftrightarrow> unat b < 128"
    by (simp_all add: word_less_nat_alt)
  moreover have "\<not> unat b < 64 \<Longrightarrow> unat (b - 64) = unat b - 64"
    by (simp add: unat_sub word_le_nat_alt)
  ultimately show ?thesis
    unfolding contains_bit_def mask_test by auto
qed

lemma contains_bit_union: "contains_bit (prov_union p q) b \<longleftrightarrow> contains_bit p b \<or> contains_bit q b"
  by (auto simp: contains_bit_alt prov_union_def bit_or_iff)

lemma union_with_eq [simp]: "union_with p q = prov_union p q"
  by (simp add: union_with_def prov_union_def)

lemma contains_bit_EMPTY [simp]: "\<not> contains_bit EMPTY b"
  by (simp add: contains_bit_alt EMPTY_def)

lemma contains_bit_set:
  "contains_bit (prov_set_bit p b) c \<longleftrightarrow> contains_bit p c \<or> (c = b \<and> unat b < 128)"
proof -
  have lt: "b < 64 \<longleftrightarrow> unat b < 64" "b < 128 \<longleftrightarrow> unat b < 128"
    by (simp_all add: word_less_nat_alt)
  have sub: "\<not> unat b < 64 \<Longrightarrow> unat (b - 64) = unat b - 64"
    by (simp add: unat_sub word_le_nat_alt)
  have eq: "c = b \<longleftrightarrow> unat c = unat b"
    by (simp add: word_unat_eq_iff)
  consider "unat b < 64" | "\<not> unat b < 64" "unat b < 128" | "\<not> unat b < 128"
    by linarith
  then show ?thesis
  proof cases
    case 1
    then show ?thesis
      by (auto simp: prov_set_bit_def lt contains_bit_alt bit_simps eq)
  next
    case 2
    then show ?thesis
      by (auto simp: prov_set_bit_def lt sub contains_bit_alt bit_simps eq)
  next
    case 3
    then show ?thesis
      by (auto simp: prov_set_bit_def lt)
  qed
qed

lemma word64_neq0: "(w::u64) \<noteq> 0 \<longleftrightarrow> (\<exists>n<64. bit w n)"
proof
  assume "w \<noteq> 0"
  then obtain n where "bit w n"
    by (auto simp: bit_eq_iff)
  then show "\<exists>n<64. bit w n"
    using bit_imp_le_length [of w n] by auto
qed auto

lemma u8_of_nat: "n < 256 \<Longrightarrow> unat (word_of_nat n :: u8) = n"
  by (simp add: unat_of_nat)

lemma ex_label:
  "(\<exists>b. contains_bit p b \<and> contains_bit q b) \<longleftrightarrow>
   (\<exists>n<64. bit (bits_lo p) n \<and> bit (bits_lo q) n) \<or> (\<exists>n<64. bit (bits_hi p) n \<and> bit (bits_hi q) n)"
  (is "?l = (?a \<or> ?b)")
proof
  assume ?l
  then obtain b where b: "contains_bit p b" "contains_bit q b" by blast
  then show "?a \<or> ?b"
    using bit_imp_le_length [of "bits_hi p" "unat b - 64"]
    by (auto simp: contains_bit_alt split: if_splits)
next
  assume "?a \<or> ?b"
  then show ?l
  proof
    assume ?a
    then obtain n where "n < 64" "bit (bits_lo p) n" "bit (bits_lo q) n" by blast
    then show ?l
      by (intro exI [of _ "word_of_nat n"]) (simp add: contains_bit_alt u8_of_nat)
  next
    assume ?b
    then obtain n where "n < 64" "bit (bits_hi p) n" "bit (bits_hi q) n" by blast
    then show ?l
      by (intro exI [of _ "word_of_nat (n + 64)"])
        (simp add: contains_bit_alt u8_of_nat del: of_nat_add)
  qed
qed

lemma intersects_iff: "intersects p q \<longleftrightarrow> (\<exists>b. contains_bit p b \<and> contains_bit q b)"
  unfolding ex_label intersects_def word64_neq0 by (auto simp: bit_and_iff)

lemma prov_is_empty_iff: "prov_is_empty p \<longleftrightarrow> p = EMPTY"
  by (cases p) (simp add: prov_is_empty_def EMPTY_def)

lemma contains_bit_ext: "(\<And>b. contains_bit p b = contains_bit q b) \<Longrightarrow> p = q"
proof (rule provenance.expand, intro conjI)
  assume eq: "\<And>b. contains_bit p b = contains_bit q b"
  show "bits_lo p = bits_lo q"
  proof (rule bit_word_eqI)
    fix n assume "n < LENGTH(64)"
    then show "bit (bits_lo p) n = bit (bits_lo q) n"
      using eq [of "word_of_nat n"] by (simp add: contains_bit_alt u8_of_nat)
  qed
  show "bits_hi p = bits_hi q"
  proof (rule bit_word_eqI)
    fix n assume "n < LENGTH(64)"
    then show "bit (bits_hi p) n = bit (bits_hi q) n"
      using eq [of "word_of_nat (n + 64)"] by (simp add: contains_bit_alt u8_of_nat del: of_nat_add)
  qed
qed

text \<open>The labels are the abstraction; the word operations implement the set operations.\<close>

lemma prov_set_simps [simp]:
  "prov_set EMPTY = {}"
  "prov_set (prov_union p q) = prov_set p \<union> prov_set q"
  "prov_set (prov_set_bit p b) = (if unat b < 128 then insert b (prov_set p) else prov_set p)"
  by (auto simp: prov_set_def contains_bit_union contains_bit_set)

lemma prov_set_inj: "prov_set p = prov_set q \<longleftrightarrow> p = q"
  using contains_bit_ext [of p q] by (auto simp: prov_set_def)

instantiation provenance :: "{semilattice_sup, order_bot}"
begin

definition less_eq_provenance :: "provenance \<Rightarrow> provenance \<Rightarrow> bool" where
  "p \<le> q \<longleftrightarrow> prov_union p q = q"

definition less_provenance :: "provenance \<Rightarrow> provenance \<Rightarrow> bool" where
  "p < q \<longleftrightarrow> prov_union p q = q \<and> p \<noteq> q"

definition sup_provenance :: "provenance \<Rightarrow> provenance \<Rightarrow> provenance" where
  "sup p q = prov_union p q"

definition bot_provenance :: provenance where
  "bot = EMPTY"

instance
  by standard
    (auto simp: less_eq_provenance_def less_provenance_def sup_provenance_def bot_provenance_def
      prov_set_inj [symmetric])

end

lemma prov_le_iff: "p \<le> q \<longleftrightarrow> prov_set p \<subseteq> prov_set q"
  by (auto simp: less_eq_provenance_def prov_set_inj [symmetric])

section \<open>Payload values\<close>

datatype payload_value =
    Rec "field list"
  | Seq "payload_value list"
  | Text string
  | Uint u64
  | Sint i64
  | Real f64
  | Boolean bool
  | Blob "u8 list"
  | NilV
and field = Field (fld_name: string) (fld_value: payload_value)

definition pv_text :: "string \<Rightarrow> payload_value" where
  "pv_text s = Text s"

definition pv_record :: "(string \<times> payload_value) list \<Rightarrow> payload_value" where
  "pv_record fs = Rec (map (\<lambda>(n, v). Field n v) fs)"

fun pv_get :: "payload_value \<Rightarrow> string \<Rightarrow> payload_value option" where
  "pv_get (Rec fs) name = map_option fld_value (find (\<lambda>f. fld_name f = name) fs)"
| "pv_get _ name = None"

fun as_text :: "payload_value \<Rightarrow> string option" where
  "as_text (Text s) = Some s"
| "as_text _ = None"

record payload =
  pl_tag :: string
  pl_value :: payload_value

definition payload_new :: "string \<Rightarrow> payload_value \<Rightarrow> payload" where
  "payload_new t v = \<lparr>pl_tag = t, pl_value = v\<rparr>"

definition payload_single :: "string \<Rightarrow> string \<Rightarrow> string \<Rightarrow> payload" where
  "payload_single t field text = \<lparr>pl_tag = t, pl_value = Rec [Field field (Text text)]\<rparr>"

section \<open>Envelopes\<close>

record meta =
  m_from :: address
  m_to :: "address option"
  m_thread :: string
  m_provenance :: provenance

record envelope =
  e_meta :: meta
  e_payload :: payload

lemma pv_get_single [simp]: "pv_get (pl_value (payload_single t f x)) f = Some (Text x)"
  by (simp add: payload_single_def)

lemma pv_get_record: "pv_get (pv_record fs) n = map_of fs n"
  by (induction fs) (auto simp: pv_record_def)

end
