(* ===== verification/Xml_Events.thy ===== *)
theory Xml_Events
  imports Rust_Text
begin

text \<open>
  The interface to the \<open>quick_xml\<close> crate, which is not part of the repository.  The crate's
  code pulls events from a reader and pushes events to a writer; the reader, the writer, the
  escaping functions and the conversion of floats to text and back are fields of \<open>lib\<close>, an
  argument of every definition that uses them.

  An element name and an attribute list are as the events carry them (\<open>attributes().flatten()\<close>:
  the attributes that parse, with their raw values); a text event carries its raw text.  A
  reader is the list of what its successive \<open>read_event_into\<close> calls return; after the last
  item it returns \<open>Eof\<close> for ever.
\<close>

datatype xml_event =
    XStart string "(string \<times> string) list"
  | XEnd string
  | XEmpty string "(string \<times> string) list"
  | XText string
  | XMisc string

type_synonym reader = "(string + xml_event) list"

record lib =
  xml_read :: "u8 list \<Rightarrow> reader"
  xml_write :: "xml_event \<Rightarrow> string + u8 list"
  xml_escape :: "string \<Rightarrow> string"
  xml_unescape :: "string \<Rightarrow> string + string"
  f64_show :: "f64 \<Rightarrow> string"
  f64_parse :: "string \<Rightarrow> f64 option"

section \<open>Documented behaviour\<close>

text \<open>
  What the documentation of \<open>quick_xml\<close> states of the functions above, used by the round-trip
  theorems as hypotheses.  With \<open>trim_text(true)\<close> the reader strips XML white space at both
  ends of a text and skips a text that is then empty.
\<close>

definition xml_ws :: "char \<Rightarrow> bool" where
  "xml_ws c \<longleftrightarrow> code c \<in> {9, 10, 13, 32}"

definition xml_trim :: "string \<Rightarrow> string" where
  "xml_trim s = rev (dropWhile xml_ws (rev (dropWhile xml_ws s)))"

fun trim_events :: "xml_event list \<Rightarrow> xml_event list" where
  "trim_events [] = []"
| "trim_events (XText s # es) =
     (if xml_trim s = [] then trim_events es else XText (xml_trim s) # trim_events es)"
| "trim_events (e # es) = e # trim_events es"

text \<open>
  Well-nested documents with plain element and attribute names, whose texts and attribute values
  are escaped strings.
\<close>

definition xml_name :: "string \<Rightarrow> bool" where
  "xml_name n \<longleftrightarrow> n \<noteq> [] \<and> list_all (\<lambda>c. 97 \<le> code c \<and> code c \<le> 122) n"

definition xml_attrs :: "(string \<Rightarrow> string) \<Rightarrow> (string \<times> string) list \<Rightarrow> bool" where
  "xml_attrs esc as \<longleftrightarrow>
     distinct (map fst as) \<and> (\<forall>(k, v) \<in> set as. xml_name k \<and> v \<in> range esc)"

fun nested :: "(string \<Rightarrow> string) \<Rightarrow> string list \<Rightarrow> xml_event list \<Rightarrow> bool" where
  "nested esc open_tags [] = (open_tags = [])"
| "nested esc open_tags (XStart n as # es) =
     (xml_name n \<and> xml_attrs esc as \<and> nested esc (n # open_tags) es)"
| "nested esc open_tags (XEnd n # es) =
     (case open_tags of [] \<Rightarrow> False | m # ms \<Rightarrow> m = n \<and> nested esc ms es)"
| "nested esc open_tags (XEmpty n as # es) =
     (xml_name n \<and> xml_attrs esc as \<and> nested esc open_tags es)"
| "nested esc open_tags (XText s # es) =
     (s \<in> range esc \<and> open_tags \<noteq> [] \<and> (case es of XText t # _ \<Rightarrow> False | _ \<Rightarrow> True) \<and>
      nested esc open_tags es)"
| "nested esc open_tags (XMisc s # es) = False"

fun write_all :: "lib \<Rightarrow> xml_event list \<Rightarrow> u8 list option" where
  "write_all L [] = Some []"
| "write_all L (e # es) =
     (case xml_write L e of
        Inl _ \<Rightarrow> None
      | Inr bs \<Rightarrow> map_option (\<lambda>rest. bs @ rest) (write_all L es))"

definition xml_laws :: "lib \<Rightarrow> bool" where
  "xml_laws L \<longleftrightarrow>
     (\<forall>e. \<exists>bs. xml_write L e = Inr bs) \<and>
     (\<forall>es bs. nested (xml_escape L) [] es \<longrightarrow> write_all L es = Some bs \<longrightarrow>
        xml_read L bs = map Inr (trim_events es)) \<and>
     (\<forall>s. xml_unescape L (xml_escape L s) = Inr s) \<and>
     (\<forall>s. xml_trim s = s \<longrightarrow> xml_trim (xml_escape L s) = xml_escape L s) \<and>
     (\<forall>s. xml_escape L s = [] \<longleftrightarrow> s = [])"

text \<open>
  A string that needs no escaping: none of the five characters that \<open>quick_xml\<close> replaces.
\<close>

definition no_markup :: "string \<Rightarrow> bool" where
  "no_markup s \<longleftrightarrow> list_all (\<lambda>c. c \<notin> {CHR ''<'', CHR ''>'', CHR ''&'', CHR 0x27, CHR 0x22}) s"

definition escape_laws :: "lib \<Rightarrow> bool" where
  "escape_laws L \<longleftrightarrow> (\<forall>s. no_markup s \<longrightarrow> xml_escape L s = s)"

text \<open>Rust's \<open>Display\<close> of a float is printable text that parses back to it.\<close>

definition f64_laws :: "lib \<Rightarrow> f64 \<Rightarrow> bool" where
  "f64_laws L x \<longleftrightarrow> f64_show L x \<noteq> [] \<and> printable (f64_show L x) \<and> f64_parse L (f64_show L x) = Some x"

lemma xml_trim_printable:
  assumes "printable s"
  shows "xml_trim s = s"
proof -
  have "\<not> xml_ws c" if "c \<in> set s" for c
    using assms that by (auto simp: printable_def list_all_iff xml_ws_def)
  then have "dropWhile xml_ws s = s" and "dropWhile xml_ws (rev s) = rev s"
    by (metis dropWhile_eq_self_iff hd_in_set, metis dropWhile_eq_self_iff hd_rev last_in_set rev_is_Nil_conv)
  then show ?thesis by (simp add: xml_trim_def)
qed

lemma write_all_append:
  "write_all L es = Some bs \<Longrightarrow> write_all L (es @ fs) = map_option (\<lambda>cs. bs @ cs) (write_all L fs)"
proof (induction es arbitrary: bs)
  case Nil
  then show ?case by (cases "write_all L fs") simp_all
next
  case (Cons e es)
  then obtain cs ds where "xml_write L e = Inr cs" "write_all L es = Some ds" "bs = cs @ ds"
    by (auto split: sum.splits)
  with Cons.IH [of ds] show ?case
    by (cases "write_all L fs") simp_all
qed

text \<open>All that encoding needs of the library: the writer writes every event.\<close>

definition total_writer :: "lib \<Rightarrow> bool" where
  "total_writer L \<longleftrightarrow> (\<forall>e. \<exists>bs. xml_write L e = Inr bs)"

lemma xml_laws_total: "xml_laws L \<Longrightarrow> total_writer L"
  by (simp add: xml_laws_def total_writer_def)

lemma xml_laws_write: "xml_laws L \<Longrightarrow> \<exists>bs. xml_write L e = Inr bs"
  by (simp add: xml_laws_def)

lemma xml_laws_write_all: "xml_laws L \<Longrightarrow> \<exists>bs. write_all L es = Some bs"
proof (induction es)
  case Nil
  then show ?case by simp
next
  case (Cons e es)
  with xml_laws_write [of L e] show ?case by auto
qed

lemma xml_laws_read:
  "xml_laws L \<Longrightarrow> nested (xml_escape L) [] es \<Longrightarrow> write_all L es = Some bs \<Longrightarrow>
   xml_read L bs = map Inr (trim_events es)"
  unfolding xml_laws_def by blast

lemma xml_laws_text:
  assumes "xml_laws L"
  shows "xml_unescape L (xml_escape L s) = Inr s"
    and "xml_trim s = s \<Longrightarrow> xml_trim (xml_escape L s) = xml_escape L s"
    and "xml_escape L s = [] \<longleftrightarrow> s = []"
  using assms by (simp_all add: xml_laws_def)

end
