(* ===== verification/Codec.thy ===== *)
theory Codec
  imports Wire_Types Xml_Events
begin

text \<open>
  \<open>src/codec.rs\<close>: the XML codec of the wire, over the events of the XML library.  Encoding
  appends the bytes of each event to the writer's buffer; decoding consumes the reader's items.
  A slice off a character boundary panics, so decoding has the outcome \<open>Panic\<close> too.
\<close>

section \<open>Encoding\<close>

definition ENVELOPE_NS :: string where
  "ENVELOPE_NS = ''https://xml-pipeline.org/ns/envelope/v1''"

type_synonym writer = "u8 list"

definition ser :: "string \<Rightarrow> pipeline_error" where
  "ser e = Serialization (Msg e [])"

definition write_event :: "lib \<Rightarrow> writer \<Rightarrow> xml_event \<Rightarrow> (writer, pipeline_error) result" where
  "write_event L w e = (case xml_write L e of Inl err \<Rightarrow> Err (ser err) | Inr bs \<Rightarrow> Ok (w @ bs))"

definition x_start ::
    "lib \<Rightarrow> writer \<Rightarrow> string \<Rightarrow> (string \<times> string) list \<Rightarrow> (writer, pipeline_error) result" where
  "x_start L w name attrs = write_event L w (XStart name (map (\<lambda>(k, v). (k, xml_escape L v)) attrs))"

definition x_end :: "lib \<Rightarrow> writer \<Rightarrow> string \<Rightarrow> (writer, pipeline_error) result" where
  "x_end L w name = write_event L w (XEnd name)"

definition text_el :: "lib \<Rightarrow> writer \<Rightarrow> string \<Rightarrow> string \<Rightarrow> (writer, pipeline_error) result" where
  "text_el L w tag text =
     bindR (x_start L w tag []) (\<lambda>w1.
     bindR (write_event L w1 (XText (xml_escape L text))) (\<lambda>w2. x_end L w2 tag))"

definition scalar :: "lib \<Rightarrow> writer \<Rightarrow> string \<Rightarrow> string \<Rightarrow> (writer, pipeline_error) result" where
  "scalar L w kind text =
     bindR (x_start L w ''v'' [(''k'', kind)]) (\<lambda>w1.
     bindR (write_event L w1 (XText (xml_escape L text))) (\<lambda>w2. x_end L w2 ''v''))"

definition prov_to_hex :: "provenance \<Rightarrow> string" where
  "prov_to_hex p = hex_pad 16 (unat (bits_hi p)) @ hex_pad 16 (unat (bits_lo p))"

definition to_hex :: "u8 list \<Rightarrow> string" where
  "to_hex bs = concat (map (\<lambda>b. hex_pad 2 (unat b)) bs)"

fun write_value :: "lib \<Rightarrow> writer \<Rightarrow> payload_value \<Rightarrow> (writer, pipeline_error) result"
and write_fields :: "lib \<Rightarrow> writer \<Rightarrow> field list \<Rightarrow> (writer, pipeline_error) result"
and write_items :: "lib \<Rightarrow> writer \<Rightarrow> payload_value list \<Rightarrow> (writer, pipeline_error) result" where
  "write_value L w (Rec fs) =
     bindR (x_start L w ''v'' [(''k'', ''rec'')]) (\<lambda>w1.
     bindR (write_fields L w1 fs) (\<lambda>w2. x_end L w2 ''v''))"
| "write_value L w (Seq items) =
     bindR (x_start L w ''v'' [(''k'', ''seq'')]) (\<lambda>w1.
     bindR (write_items L w1 items) (\<lambda>w2. x_end L w2 ''v''))"
| "write_value L w (Text s) = scalar L w ''text'' s"
| "write_value L w (Uint n) = scalar L w ''uint'' (show_u64 n)"
| "write_value L w (Sint n) = scalar L w ''sint'' (show_i64 n)"
| "write_value L w (Real x) = scalar L w ''real'' (f64_show L x)"
| "write_value L w (Boolean b) = scalar L w ''bool'' (if b then ''true'' else ''false'')"
| "write_value L w (Blob bytes) = scalar L w ''blob'' (to_hex bytes)"
| "write_value L w NilV = write_event L w (XEmpty ''v'' [(''k'', xml_escape L ''nil'')])"
| "write_fields L w [] = Ok w"
| "write_fields L w (Field n v # fs) =
     bindR (x_start L w ''f'' [(''n'', n)]) (\<lambda>w1.
     bindR (write_value L w1 v) (\<lambda>w2.
     bindR (x_end L w2 ''f'') (\<lambda>w3. write_fields L w3 fs)))"
| "write_items L w [] = Ok w"
| "write_items L w (v # vs) = bindR (write_value L w v) (\<lambda>w1. write_items L w1 vs)"

definition encode_envelope :: "lib \<Rightarrow> envelope \<Rightarrow> (u8 list, pipeline_error) result" where
  "encode_envelope L env =
     (let m = e_meta env; pl = e_payload env in
      bindR (x_start L [] ''message'' [(''xmlns'', ENVELOPE_NS)]) (\<lambda>w.
      bindR (x_start L w ''meta'' []) (\<lambda>w.
      bindR (text_el L w ''from'' (address_display (m_from m))) (\<lambda>w.
      bindR (case m_to m of Some to \<Rightarrow> text_el L w ''to'' (address_display to) | None \<Rightarrow> Ok w) (\<lambda>w.
      bindR (text_el L w ''thread'' (m_thread m)) (\<lambda>w.
      bindR (if \<not> prov_is_empty (m_provenance m)
             then text_el L w ''provenance'' (prov_to_hex (m_provenance m)) else Ok w) (\<lambda>w.
      bindR (x_end L w ''meta'') (\<lambda>w.
      bindR (x_start L w ''payload'' [(''tag'', pl_tag pl)]) (\<lambda>w.
      bindR (write_value L w (pl_value pl)) (\<lambda>w.
      bindR (x_end L w ''payload'') (\<lambda>w. x_end L w ''message'')))))))))))"

section \<open>Decoding\<close>

definition parse_err :: "string \<Rightarrow> pipeline_error" where
  "parse_err e = EnvelopeParse (Msg e [])"

definition parse_msg :: "string \<Rightarrow> string list \<Rightarrow> pipeline_error" where
  "parse_msg fmt args = EnvelopeParse (Msg fmt args)"

definition unescape :: "lib \<Rightarrow> string \<Rightarrow> (string, pipeline_error) result" where
  "unescape L t = (case xml_unescape L t of Inl e \<Rightarrow> Err (parse_err e) | Inr s \<Rightarrow> Ok s)"

definition get_attr :: "(string \<times> string) list \<Rightarrow> string \<Rightarrow> string option" where
  "get_attr attrs key = map_option (\<lambda>(k, v). from_utf8_lossy v) (find (\<lambda>(k, v). k = key) attrs)"

definition attr_or_default :: "(string \<times> string) list \<Rightarrow> string \<Rightarrow> string" where
  "attr_or_default attrs key = (case get_attr attrs key of Some v \<Rightarrow> v | None \<Rightarrow> [])"

definition prov_from_hex :: "string \<Rightarrow> (provenance, pipeline_error) result" where
  "prov_from_hex s0 =
     (let s = trim s0 in
      if length s \<noteq> 32 then Err (parse_msg ''provenance must be 32 hex chars, got {}'' [show_nat (length s)])
      else bindR (str_slice s 0 16) (\<lambda>a.
           bindR (ok_or (parse_msg ''bad provenance hex'' []) (from_str_radix 16 (2 ^ 64) a)) (\<lambda>hi.
           bindR (str_slice s 16 (length s)) (\<lambda>b.
           bindR (ok_or (parse_msg ''bad provenance hex'' []) (from_str_radix 16 (2 ^ 64) b)) (\<lambda>lo.
           Ok (Provenance (word_of_nat lo) (word_of_nat hi)))))))"

text \<open>\<open>(0..s.len()).step_by(2).map(...).collect()\<close>: the pairs in order, to the first failure.\<close>

fun hex_pairs :: "string \<Rightarrow> nat list \<Rightarrow> (u8 list, pipeline_error) result" where
  "hex_pairs s [] = Ok []"
| "hex_pairs s (i # is) =
     bindR (str_slice s i (i + 2)) (\<lambda>p.
     bindR (ok_or (parse_msg ''bad blob hex'' []) (from_str_radix 16 256 p)) (\<lambda>n.
     bindR (hex_pairs s is) (\<lambda>bs. Ok (word_of_nat n # bs))))"

definition from_hex :: "string \<Rightarrow> (u8 list, pipeline_error) result" where
  "from_hex s0 =
     (let s = trim s0 in
      if length s mod 2 \<noteq> 0 then Err (parse_msg ''blob hex must have even length'' [])
      else hex_pairs s (map (\<lambda>i. 2 * i) [0..<length s div 2]))"

definition empty_value :: "string \<Rightarrow> payload_value" where
  "empty_value kind =
     (if kind = ''rec'' then Rec [] else if kind = ''seq'' then Seq []
      else if kind = ''text'' then Text [] else if kind = ''blob'' then Blob [] else NilV)"

fun read_scalar :: "lib \<Rightarrow> reader \<Rightarrow> string \<Rightarrow> (string \<times> reader, pipeline_error) result" where
  "read_scalar L [] s = Err (parse_msg ''EOF in scalar <v>'' [])"
| "read_scalar L (Inl e # r) s = Err (parse_err e)"
| "read_scalar L (Inr (XText t) # r) s = bindR (unescape L t) (\<lambda>u. read_scalar L r (s @ u))"
| "read_scalar L (Inr (XEnd n) # r) s = (if n = ''v'' then Ok (s, r) else read_scalar L r s)"
| "read_scalar L (Inr ev # r) s = read_scalar L r s"

fun expect_end :: "reader \<Rightarrow> string \<Rightarrow> (reader, pipeline_error) result" where
  "expect_end [] name = Err (parse_msg ''expected </{}>, found EOF'' [name])"
| "expect_end (Inl e # r) name = Err (parse_err e)"
| "expect_end (Inr (XEnd n) # r) name =
     (if n = name then Ok r else Err (parse_msg ''expected </{}>, found {other:?}'' [name, n]))"
| "expect_end (Inr (XText t) # r) name = expect_end r name"
| "expect_end (Inr ev # r) name = Err (parse_msg ''expected </{}>, found {other:?}'' [name])"

lemma read_scalar_length: "read_scalar L rd s = Ok (t, r) \<Longrightarrow> length r < length rd"
  by (induction L rd s rule: read_scalar.induct) (auto simp: result_iffs split: if_splits)

lemma expect_end_length: "expect_end rd n = Ok r \<Longrightarrow> length r < length rd"
  by (induction rd n rule: expect_end.induct) (auto split: if_splits)

function (domintros) expect_value :: "lib \<Rightarrow> reader \<Rightarrow> (payload_value \<times> reader, pipeline_error) result"
and parse_value :: "lib \<Rightarrow> string \<Rightarrow> reader \<Rightarrow> (payload_value \<times> reader, pipeline_error) result"
and rec_loop :: "lib \<Rightarrow> field list \<Rightarrow> reader \<Rightarrow> (payload_value \<times> reader, pipeline_error) result"
and seq_loop :: "lib \<Rightarrow> payload_value list \<Rightarrow> reader \<Rightarrow> (payload_value \<times> reader, pipeline_error) result" where
  "expect_value L rd =
     (case rd of
        [] \<Rightarrow> Err (parse_msg ''expected <v>, found EOF'' [])
      | Inl e # r \<Rightarrow> Err (parse_err e)
      | Inr (XStart n attrs) # r \<Rightarrow>
          if n = ''v'' then parse_value L (attr_or_default attrs ''k'') r
          else Err (parse_msg ''expected <v>, found {other:?}'' [n])
      | Inr (XEmpty n attrs) # r \<Rightarrow>
          if n = ''v'' then Ok (empty_value (attr_or_default attrs ''k''), r)
          else Err (parse_msg ''expected <v>, found {other:?}'' [n])
      | Inr (XText t) # r \<Rightarrow> expect_value L r
      | Inr (XEnd n) # r \<Rightarrow> Err (parse_msg ''expected <v>, found {other:?}'' [n])
      | Inr (XMisc m) # r \<Rightarrow> Err (parse_msg ''expected <v>, found {other:?}'' [m]))"
| "parse_value L kind rd =
     (if kind = ''rec'' then rec_loop L [] rd
      else if kind = ''seq'' then seq_loop L [] rd
      else if kind = ''text'' then bindR (read_scalar L rd []) (\<lambda>(s, r). Ok (Text s, r))
      else if kind = ''uint'' then bindR (read_scalar L rd []) (\<lambda>(s, r).
        bindR (ok_or (parse_msg ''invalid uint {s:?}'' [s]) (parse_u64 s)) (\<lambda>n. Ok (Uint n, r)))
      else if kind = ''sint'' then bindR (read_scalar L rd []) (\<lambda>(s, r).
        bindR (ok_or (parse_msg ''invalid sint {s:?}'' [s]) (parse_i64 s)) (\<lambda>n. Ok (Sint n, r)))
      else if kind = ''real'' then bindR (read_scalar L rd []) (\<lambda>(s, r).
        bindR (ok_or (parse_msg ''invalid real {s:?}'' [s]) (f64_parse L s)) (\<lambda>x. Ok (Real x, r)))
      else if kind = ''bool'' then bindR (read_scalar L rd []) (\<lambda>(s, r). Ok (Boolean (s = ''true''), r))
      else if kind = ''blob'' then bindR (read_scalar L rd []) (\<lambda>(s, r).
        bindR (from_hex s) (\<lambda>bs. Ok (Blob bs, r)))
      else if kind = ''nil'' then bindR (read_scalar L rd []) (\<lambda>(s, r). Ok (NilV, r))
      else Err (parse_msg ''unknown value kind {other:?}'' [kind]))"
| "rec_loop L fs rd =
     (case rd of
        [] \<Rightarrow> Err (parse_msg ''EOF in <v k=rec>'' [])
      | Inl e # r \<Rightarrow> Err (parse_err e)
      | Inr (XStart n attrs) # r \<Rightarrow>
          if n = ''f'' then
            bindR (expect_value L r) (\<lambda>(v, r1).
            bindR (expect_end r1 ''f'') (\<lambda>r2.
            rec_loop L (fs @ [Field (attr_or_default attrs ''n'') v]) r2))
          else rec_loop L fs r
      | Inr (XEnd n) # r \<Rightarrow> if n = ''v'' then Ok (Rec fs, r) else rec_loop L fs r
      | Inr (XEmpty n attrs) # r \<Rightarrow> rec_loop L fs r
      | Inr (XText t) # r \<Rightarrow> rec_loop L fs r
      | Inr (XMisc m) # r \<Rightarrow> rec_loop L fs r)"
| "seq_loop L items rd =
     (case rd of
        [] \<Rightarrow> Err (parse_msg ''EOF in <v k=seq>'' [])
      | Inl e # r \<Rightarrow> Err (parse_err e)
      | Inr (XStart n attrs) # r \<Rightarrow>
          if n = ''v'' then
            bindR (parse_value L (attr_or_default attrs ''k'') r) (\<lambda>(v, r1). seq_loop L (items @ [v]) r1)
          else seq_loop L items r
      | Inr (XEmpty n attrs) # r \<Rightarrow>
          if n = ''v'' then seq_loop L (items @ [empty_value (attr_or_default attrs ''k'')]) r
          else seq_loop L items r
      | Inr (XEnd n) # r \<Rightarrow> if n = ''v'' then Ok (Seq items, r) else seq_loop L items r
      | Inr (XText t) # r \<Rightarrow> seq_loop L items r
      | Inr (XMisc m) # r \<Rightarrow> seq_loop L items r)"
  by pat_completeness auto

text \<open>Termination: what is left to read after a value is shorter than before.\<close>

definition shorter :: "('a \<times> reader, 'e) result \<Rightarrow> reader \<Rightarrow> bool" where
  "shorter m rd \<longleftrightarrow> (\<forall>v r. m = Ok (v, r) \<longrightarrow> length r < length rd)"

lemma shorter_intros:
  "shorter (Err e) rd"
  "shorter m r \<Longrightarrow> shorter m (x # r)"
  "length r < length rd \<Longrightarrow> shorter (Ok (v, r)) rd"
  "(\<And>v r. m = Ok (v, r) \<Longrightarrow> shorter (f (v, r)) rd) \<Longrightarrow> shorter (bindR m f) rd"
  "(\<And>x. g = Ok x \<Longrightarrow> shorter (h x) rd) \<Longrightarrow> shorter (bindR g h) rd"
  by (fastforce simp: shorter_def result_iffs less_SucI)+

lemma shorter_trans: "shorter m r \<Longrightarrow> length r \<le> length rd \<Longrightarrow> shorter m rd"
  by (fastforce simp: shorter_def)

lemma shorter_scalar:
  "shorter (bindR (read_scalar L rd []) (\<lambda>(s, r). Ok (f s, r))) rd"
  "shorter (bindR (read_scalar L rd []) (\<lambda>(s, r). bindR (g s) (\<lambda>n. Ok (h n, r)))) rd"
  by (auto simp: shorter_def result_iffs dest: read_scalar_length)

lemma value_shrinks_dom:
  "expect_value_parse_value_rec_loop_seq_loop_dom (Inl (Inl (L, rd))) \<Longrightarrow> shorter (expect_value L rd) rd"
  "expect_value_parse_value_rec_loop_seq_loop_dom (Inl (Inr (L, kind, rd))) \<Longrightarrow> shorter (parse_value L kind rd) rd"
  "expect_value_parse_value_rec_loop_seq_loop_dom (Inr (Inl (L, fs, rd))) \<Longrightarrow> shorter (rec_loop L fs rd) rd"
  "expect_value_parse_value_rec_loop_seq_loop_dom (Inr (Inr (L, items, rd))) \<Longrightarrow> shorter (seq_loop L items rd) rd"
proof (induct L rd and L kind rd and L fs rd and L items rd
    rule: expect_value_parse_value_rec_loop_seq_loop.pinduct)
  case (1 L rd)
  show ?case
    using 1(2,3) unfolding expect_value.psimps [OF 1(1)]
    by (auto intro: shorter_intros split: list.split sum.split xml_event.split)
next
  case (2 L kind rd)
  show ?case
    using 2(2,3) unfolding parse_value.psimps [OF 2(1)]
    by (simp add: shorter_scalar shorter_intros(1))
next
  case (3 L fs rd)
  have step: "shorter (rec_loop L (fs @ [Field (attr_or_default attrs ''n'') v]) r2) (Inr (XStart ''f'' attrs) # r)"
    if "rd = Inr (XStart ''f'' attrs) # r" "expect_value L r = Ok (v, r1)" "expect_end r1 ''f'' = Ok r2"
    for attrs r v r1 r2
  proof (rule shorter_trans)
    show "shorter (rec_loop L (fs @ [Field (attr_or_default attrs ''n'') v]) r2) r2"
      using 3(3) that by blast
    have "length r1 < length r"
      using 3(2) that unfolding shorter_def by blast
    then show "length r2 \<le> length (Inr (XStart ''f'' attrs) # r)"
      using expect_end_length [OF that(3)] by simp
  qed
  then have "shorter (bindR (expect_value L r) (\<lambda>(v, r1). bindR (expect_end r1 ''f'')
      (rec_loop L (fs @ [Field (attr_or_default attrs ''n'') v])))) (Inr (XStart ''f'' attrs) # r)"
    if "rd = Inr (XStart ''f'' attrs) # r" for attrs r
    using that by (auto intro!: shorter_intros(4,5))
  then show ?case
    using 3(4-) unfolding rec_loop.psimps [OF 3(1)]
    by (auto intro: shorter_intros split: list.split sum.split xml_event.split)
next
  case (4 L items rd)
  have step: "shorter (seq_loop L (items @ [v]) r1) (Inr (XStart ''v'' attrs) # r)"
    if "rd = Inr (XStart ''v'' attrs) # r" "parse_value L (attr_or_default attrs ''k'') r = Ok (v, r1)"
    for attrs r v r1
  proof (rule shorter_trans)
    show "shorter (seq_loop L (items @ [v]) r1) r1"
      using 4(3) that by blast
    have "length r1 < length r"
      using 4(2) that unfolding shorter_def by blast
    then show "length r1 \<le> length (Inr (XStart ''v'' attrs) # r)"
      by simp
  qed
  show ?case
    using 4(4-) step unfolding seq_loop.psimps [OF 4(1)]
    by (auto intro: shorter_intros split: list.split sum.split xml_event.split)
qed

lemma values_terminate: "All expect_value_parse_value_rec_loop_seq_loop_dom"
  by (rule "expect_value_parse_value_rec_loop_seq_loop.termination" [where
        R = "measure (\<lambda>x. case x of Inl (Inl (L, rd)) \<Rightarrow> 2 * length rd
          | Inl (Inr (L, k, rd)) \<Rightarrow> 2 * length rd + 1 | Inr (Inl (L, fs, rd)) \<Rightarrow> 2 * length rd
          | Inr (Inr (L, vs, rd)) \<Rightarrow> 2 * length rd)"], simp_all)
    (force dest: value_shrinks_dom(1) expect_end_length simp: shorter_def,
     force dest: value_shrinks_dom(2) simp: shorter_def)

termination expect_value
  by (rule values_terminate)

declare expect_value.simps [simp del] parse_value.simps [simp del]
  rec_loop.simps [simp del] seq_loop.simps [simp del]

lemma expect_value_length: "expect_value L rd = Ok (v, r) \<Longrightarrow> length r < length rd"
  using value_shrinks_dom(1) [OF values_terminate [rule_format], of L rd]
  by (simp add: shorter_def)

record meta_fields =
  mf_from :: "address option"
  mf_to :: "address option"
  mf_thread :: "string option"
  mf_provenance :: provenance

definition set_meta_field ::
    "string \<Rightarrow> string \<Rightarrow> meta_fields \<Rightarrow> (meta_fields, pipeline_error) result" where
  "set_meta_field name s mf =
     (if name = ''from'' then
        bindR (map_err pipeline_error_of_address (parse_address s)) (\<lambda>a. Ok (mf\<lparr>mf_from := Some a\<rparr>))
      else if name = ''to'' then
        bindR (map_err pipeline_error_of_address (parse_address s)) (\<lambda>a. Ok (mf\<lparr>mf_to := Some a\<rparr>))
      else if name = ''thread'' then Ok (mf\<lparr>mf_thread := Some s\<rparr>)
      else if name = ''provenance'' then
        bindR (prov_from_hex s) (\<lambda>p. Ok (mf\<lparr>mf_provenance := p\<rparr>))
      else Ok mf)"

fun read_meta ::
    "lib \<Rightarrow> string option \<Rightarrow> meta_fields \<Rightarrow> reader \<Rightarrow> (meta_fields \<times> reader, pipeline_error) result" where
  "read_meta L field mf [] = Err (parse_msg ''unexpected EOF in <meta>'' [])"
| "read_meta L field mf (Inl e # r) = Err (parse_err e)"
| "read_meta L field mf (Inr (XStart n attrs) # r) = read_meta L (Some n) mf r"
| "read_meta L field mf (Inr (XText t) # r) =
     (case field of
        None \<Rightarrow> read_meta L field mf r
      | Some name \<Rightarrow>
          bindR (unescape L t) (\<lambda>u.
          bindR (set_meta_field name (trim u) mf) (\<lambda>mf'. read_meta L field mf' r)))"
| "read_meta L field mf (Inr (XEnd n) # r) =
     (if n = ''meta'' then Ok (mf, r) else read_meta L None mf r)"
| "read_meta L field mf (Inr ev # r) = read_meta L field mf r"

lemma read_meta_length: "read_meta L field mf rd = Ok (mf', r) \<Longrightarrow> length r < length rd"
proof (induction L field mf rd rule: read_meta.induct)
  case (4 L field mf t rd)
  show ?case
  proof (cases field)
    case None
    with 4 show ?thesis by simp
  next
    case (Some name)
    with "4.prems" obtain u m where u: "unescape L t = Ok u"
      and m: "set_meta_field name (trim u) mf = Ok m" and rest: "read_meta L field m rd = Ok (mf', r)"
      by (auto simp: result_iffs)
    from "4.IH"(2) [OF Some u m rest] show ?thesis by simp
  qed
qed (auto split: if_splits)

type_synonym decode_state = "meta_fields \<times> payload option \<times> bool"

function decode_loop ::
    "lib \<Rightarrow> meta_fields \<Rightarrow> payload option \<Rightarrow> bool \<Rightarrow> reader \<Rightarrow> (decode_state, pipeline_error) result" where
  "decode_loop L mf pl found rd =
     (case rd of
        [] \<Rightarrow> Ok (mf, pl, found)
      | Inl e # r \<Rightarrow> Err (parse_err e)
      | Inr (XStart n attrs) # r \<Rightarrow>
          if n = ''message'' then decode_loop L mf pl True r
          else if n = ''meta'' then
            bindR (read_meta L None mf r) (\<lambda>(mf', r1). decode_loop L mf' pl found r1)
          else if n = ''payload'' then
            bindR (expect_value L r) (\<lambda>(v, r1).
            bindR (expect_end r1 ''payload'') (\<lambda>r2.
            decode_loop L mf (Some \<lparr>pl_tag = attr_or_default attrs ''tag'', pl_value = v\<rparr>) found r2))
          else Err (parse_msg ''unexpected element <{}>'' [n])
      | Inr (XEnd n) # r \<Rightarrow> if n = ''message'' then Ok (mf, pl, found) else decode_loop L mf pl found r
      | Inr (XEmpty n attrs) # r \<Rightarrow> decode_loop L mf pl found r
      | Inr (XText t) # r \<Rightarrow> decode_loop L mf pl found r
      | Inr (XMisc m) # r \<Rightarrow> decode_loop L mf pl found r)"
  by pat_completeness auto
termination
  by (relation "measure (\<lambda>(L, mf, pl, found, rd). length rd)")
    (auto dest!: read_meta_length expect_value_length expect_end_length)

declare decode_loop.simps [simp del]

definition decode_envelope :: "lib \<Rightarrow> u8 list \<Rightarrow> (envelope, pipeline_error) result" where
  "decode_envelope L raw =
     bindR (decode_loop L \<lparr>mf_from = None, mf_to = None, mf_thread = None, mf_provenance = EMPTY\<rparr>
              None False (xml_read L raw)) (\<lambda>(mf, pl, found_message).
     if \<not> found_message then Err (parse_msg ''no <message> element'' [])
     else bindR (ok_or (MissingMeta ''from'') (mf_from mf)) (\<lambda>frm.
          bindR (ok_or (MissingMeta ''thread'') (mf_thread mf)) (\<lambda>thread.
          bindR (ok_or (MissingMeta ''payload'') pl) (\<lambda>payload.
          Ok \<lparr>e_meta = \<lparr>m_from = frm, m_to = mf_to mf, m_thread = thread,
                m_provenance = mf_provenance mf\<rparr>, e_payload = payload\<rparr>))))"

end
