(* ===== verification/Codec_Laws.thy ===== *)
theory Codec_Laws
  imports Codec
begin

text \<open>
  What the codec guarantees: hexadecimal labels and blobs read back, and a well-formed envelope
  decodes to itself up to the white space the reader strips.
\<close>

section \<open>Hexadecimal round trips\<close>

lemma prov_hex_length: "length (prov_to_hex p) = 32"
  by (simp add: prov_to_hex_def)

lemma prov_hex_printable: "printable (prov_to_hex p)"
  by (simp add: prov_to_hex_def hex_pad_printable)

lemma from_str_radix_hex_pad:
  "0 < n \<Longrightarrow> v < 16 ^ n \<Longrightarrow> 16 ^ n \<le> bound \<Longrightarrow> from_str_radix 16 bound (hex_pad n v) = Some v"
  using digits_value_hex_pad [of 0 n v]
  by (intro from_str_radix_digits) (auto simp flip: length_0_conv)

lemma hex_u64 [simp]:
  "from_str_radix 16 18446744073709551616 (hex_pad 16 (unat (w::u64))) = Some (unat w)"
  using unsigned_less [of w, where ?'a = nat] by (simp add: from_str_radix_hex_pad)

lemma prov_from_to_hex: "prov_from_hex (prov_to_hex p) = Ok p"
proof -
  have asc: "ascii (prov_to_hex p)"
    by (rule printable_ascii [OF prov_hex_printable])
  show ?thesis
    unfolding prov_from_hex_def Let_def trim_printable [OF prov_hex_printable] prov_hex_length
      str_slice_ascii [OF asc, of 0 16, unfolded prov_hex_length, simplified]
      str_slice_ascii [OF asc, of 16 32, unfolded prov_hex_length, simplified]
    by (simp add: prov_to_hex_def del: hex_pad.simps)
qed

lemma to_hex_simps [simp]: "to_hex [] = []" "to_hex (b # bs) = hex_pad 2 (unat b) @ to_hex bs"
  by (simp_all add: to_hex_def)

lemma to_hex_printable: "printable (to_hex bs)"
  by (induction bs) (simp_all add: hex_pad_printable del: hex_pad.simps)

lemma to_hex_length: "length (to_hex bs) = 2 * length bs"
  by (induction bs) simp_all

lemma hex_pairs_to_hex:
  "ascii pre \<Longrightarrow> length pre = 2 * k \<Longrightarrow>
   hex_pairs (pre @ to_hex bs) (map (\<lambda>i. 2 * i) [k..<k + length bs]) = Ok bs"
proof (induction bs arbitrary: pre k)
  case Nil
  then show ?case by simp
next
  case (Cons b bs)
  have upt: "[k..<k + length (b # bs)] = k # [Suc k..<Suc k + length bs]"
    by (simp add: upt_conv_Cons del: upt_Suc)
  have asc: "ascii (pre @ to_hex (b # bs))"
    using Cons.prems(1) printable_ascii [OF to_hex_printable, of "b # bs"] by (simp del: to_hex_simps)
  have slice: "(str_slice (pre @ to_hex (b # bs)) (2 * k) (2 * k + 2) :: (string, pipeline_error) result)
      = Ok (hex_pad 2 (unat b))"
    using Cons.prems(2) to_hex_length [of "b # bs"]
    by (subst str_slice_ascii [OF asc]) (simp_all del: hex_pad.simps)
  have "unat b < 16 ^ 2"
    using unsigned_less [of b, where ?'a = nat] by simp
  then have num: "from_str_radix 16 256 (hex_pad 2 (unat b)) = Some (unat b)"
    by (intro from_str_radix_hex_pad) simp_all
  have "hex_pairs ((pre @ hex_pad 2 (unat b)) @ to_hex bs) (map (\<lambda>i. 2 * i) [Suc k..<Suc k + length bs]) = Ok bs"
    using Cons.prems printable_ascii [OF hex_pad_printable, of 2 "unat b"]
    by (intro Cons.IH) (simp_all del: hex_pad.simps)
  then show ?case
    unfolding upt using slice num by (simp del: hex_pad.simps upt_Suc)
qed

lemma from_to_hex: "from_hex (to_hex bs) = Ok bs"
  using hex_pairs_to_hex [of "[]" 0 bs]
  by (simp add: from_hex_def trim_printable [OF to_hex_printable] to_hex_length)

section \<open>The events an envelope is written as\<close>

definition scalar_events :: "lib \<Rightarrow> string \<Rightarrow> string \<Rightarrow> xml_event list" where
  "scalar_events L kind text =
     [XStart ''v'' [(''k'', xml_escape L kind)], XText (xml_escape L text), XEnd ''v'']"

fun value_events :: "lib \<Rightarrow> payload_value \<Rightarrow> xml_event list"
and fields_events :: "lib \<Rightarrow> field list \<Rightarrow> xml_event list"
and items_events :: "lib \<Rightarrow> payload_value list \<Rightarrow> xml_event list" where
  "value_events L (Rec fs) =
     XStart ''v'' [(''k'', xml_escape L ''rec'')] # fields_events L fs @ [XEnd ''v'']"
| "value_events L (Seq vs) =
     XStart ''v'' [(''k'', xml_escape L ''seq'')] # items_events L vs @ [XEnd ''v'']"
| "value_events L (Text s) = scalar_events L ''text'' s"
| "value_events L (Uint n) = scalar_events L ''uint'' (show_u64 n)"
| "value_events L (Sint n) = scalar_events L ''sint'' (show_i64 n)"
| "value_events L (Real x) = scalar_events L ''real'' (f64_show L x)"
| "value_events L (Boolean b) = scalar_events L ''bool'' (if b then ''true'' else ''false'')"
| "value_events L (Blob bs) = scalar_events L ''blob'' (to_hex bs)"
| "value_events L NilV = [XEmpty ''v'' [(''k'', xml_escape L ''nil'')]]"
| "fields_events L [] = []"
| "fields_events L (Field n v # fs) =
     XStart ''f'' [(''n'', xml_escape L n)] # value_events L v @ XEnd ''f'' # fields_events L fs"
| "items_events L [] = []"
| "items_events L (v # vs) = value_events L v @ items_events L vs"

definition text_events :: "lib \<Rightarrow> string \<Rightarrow> string \<Rightarrow> xml_event list" where
  "text_events L tag text = [XStart tag [], XText (xml_escape L text), XEnd tag]"

definition meta_events :: "lib \<Rightarrow> meta \<Rightarrow> xml_event list" where
  "meta_events L m =
     text_events L ''from'' (address_display (m_from m)) @
     (case m_to m of Some to \<Rightarrow> text_events L ''to'' (address_display to) | None \<Rightarrow> []) @
     text_events L ''thread'' (m_thread m) @
     (if prov_is_empty (m_provenance m) then []
      else text_events L ''provenance'' (prov_to_hex (m_provenance m)))"

definition envelope_events :: "lib \<Rightarrow> envelope \<Rightarrow> xml_event list" where
  "envelope_events L env =
     XStart ''message'' [(''xmlns'', xml_escape L ENVELOPE_NS)] #
     XStart ''meta'' [] # meta_events L (e_meta env) @ XEnd ''meta'' #
     XStart ''payload'' [(''tag'', xml_escape L (pl_tag (e_payload env)))] #
     value_events L (pl_value (e_payload env)) @ [XEnd ''payload'', XEnd ''message'']"

definition bytes_of :: "lib \<Rightarrow> xml_event list \<Rightarrow> u8 list" where
  "bytes_of L es = concat (map (\<lambda>e. case xml_write L e of Inl _ \<Rightarrow> [] | Inr bs \<Rightarrow> bs) es)"

lemma bytes_of_append [simp]: "bytes_of L (es @ fs) = bytes_of L es @ bytes_of L fs"
  by (simp add: bytes_of_def)

lemma bytes_of_Nil: "bytes_of L [] = []"
  by (simp add: bytes_of_def)

lemma bytes_of_Cons: "bytes_of L (e # es) = bytes_of L [e] @ bytes_of L es"
  by (simp add: bytes_of_def)

lemma write_all_bytes: "xml_laws L \<Longrightarrow> write_all L es = Some (bytes_of L es)"
proof (induction es)
  case Nil
  then show ?case by (simp add: bytes_of_def)
next
  case (Cons e es)
  from xml_laws_write [OF Cons.prems, of e] Cons show ?case
    by (auto simp: bytes_of_def)
qed

lemma write_event_bytes: "total_writer L \<Longrightarrow> write_event L w e = Ok (w @ bytes_of L [e])"
  unfolding total_writer_def by (drule spec [of _ e]) (auto simp: write_event_def bytes_of_def)

lemma write_scalar_bytes: "total_writer L \<Longrightarrow> scalar L w k t = Ok (w @ bytes_of L (scalar_events L k t))"
  by (simp add: scalar_def x_start_def x_end_def write_event_bytes scalar_events_def
      bytes_of_Cons [of L "XStart n as" "_ # _" for n as] bytes_of_Cons [of L "XText t" "_ # _" for t])

lemma text_el_bytes: "total_writer L \<Longrightarrow> text_el L w tag t = Ok (w @ bytes_of L (text_events L tag t))"
  by (simp add: text_el_def x_start_def x_end_def write_event_bytes text_events_def
      bytes_of_Cons [of L "XStart n as" "_ # _" for n as] bytes_of_Cons [of L "XText t" "_ # _" for t])

lemma write_value_bytes:
  assumes "total_writer L"
  shows "write_value L w v = Ok (w @ bytes_of L (value_events L v))"
    and "write_fields L w fs = Ok (w @ bytes_of L (fields_events L fs))"
    and "write_items L w vs = Ok (w @ bytes_of L (items_events L vs))"
  using assms
proof (induction L v and L fs and L vs arbitrary: w and w and w
    rule: value_events_fields_events_items_events.induct)
  case (1 L fs)
  then show ?case
    by (simp add: x_start_def x_end_def write_event_bytes bytes_of_Cons [of L "XStart n as" "_ @ _" for n as])
next
  case (2 L vs)
  then show ?case
    by (simp add: x_start_def x_end_def write_event_bytes bytes_of_Cons [of L "XStart n as" "_ @ _" for n as])
next
  case (11 L n v fs)
  then show ?case
    by (simp add: x_start_def x_end_def write_event_bytes bytes_of_Cons [of L "XStart n as" "_ @ _" for n as]
        bytes_of_Cons [of L "XEnd n" "fields_events _ _" for n])
qed (simp_all add: write_scalar_bytes write_event_bytes bytes_of_def)

lemma encode_envelope_total:
  assumes "total_writer L"
  shows "encode_envelope L env = Ok (bytes_of L (envelope_events L env))"
  using assms
  by (cases "m_to (e_meta env)")
    (simp_all add: Let_def encode_envelope_def envelope_events_def meta_events_def text_el_bytes x_start_def
      x_end_def write_event_bytes write_value_bytes
      bytes_of_Cons [of L "XStart n as" "_ @ _" for n as] bytes_of_Cons [of L "XStart n as" "_ # _" for n as]
      bytes_of_Cons [of L "XEnd n" "_ # _" for n] bytes_of_Nil)

lemmas encode_envelope_bytes = encode_envelope_total [OF xml_laws_total]

section \<open>Well-formedness and normal form\<close>

text \<open>
  A text survives the reader's trimming when it has no white space at its ends, or, in normal
  form, when it needs no escaping.
\<close>

definition text_ok :: "string \<Rightarrow> bool" where
  "text_ok s \<longleftrightarrow> xml_trim s = s \<or> no_markup s"

definition attr_ok :: "string \<Rightarrow> bool" where
  "attr_ok s \<longleftrightarrow> no_markup s \<and> utf8_valid s"

fun wf_value :: "lib \<Rightarrow> payload_value \<Rightarrow> bool" and wf_field :: "lib \<Rightarrow> field \<Rightarrow> bool" where
  "wf_value L (Rec fs) = list_all (wf_field L) fs"
| "wf_value L (Seq vs) = list_all (wf_value L) vs"
| "wf_value L (Text s) = text_ok s"
| "wf_value L (Uint n) = True"
| "wf_value L (Sint n) = True"
| "wf_value L (Real x) = f64_laws L x"
| "wf_value L (Boolean b) = True"
| "wf_value L (Blob bs) = True"
| "wf_value L NilV = True"
| "wf_field L (Field n v) = (attr_ok n \<and> wf_value L v)"

fun norm_value :: "payload_value \<Rightarrow> payload_value" and norm_field :: "field \<Rightarrow> field" where
  "norm_value (Rec fs) = Rec (map norm_field fs)"
| "norm_value (Seq vs) = Seq (map norm_value vs)"
| "norm_value (Text s) = Text (xml_trim s)"
| "norm_value (Uint n) = Uint n"
| "norm_value (Sint n) = Sint n"
| "norm_value (Real x) = Real x"
| "norm_value (Boolean b) = Boolean b"
| "norm_value (Blob bs) = Blob bs"
| "norm_value NilV = NilV"
| "norm_field (Field n v) = Field n (norm_value v)"

definition meta_text :: "string \<Rightarrow> bool" where
  "meta_text s \<longleftrightarrow> s \<noteq> [] \<and> trim s = s \<and> xml_trim s = s"

definition wf_meta :: "meta \<Rightarrow> bool" where
  "wf_meta m \<longleftrightarrow>
     wf_address (m_from m) \<and> meta_text (address_display (m_from m)) \<and>
     pred_option (\<lambda>a. wf_address a \<and> meta_text (address_display a)) (m_to m) \<and>
     meta_text (m_thread m)"

definition wf_envelope :: "lib \<Rightarrow> envelope \<Rightarrow> bool" where
  "wf_envelope L env \<longleftrightarrow>
     wf_meta (e_meta env) \<and> attr_ok (pl_tag (e_payload env)) \<and> wf_value L (pl_value (e_payload env))"

definition norm_envelope :: "envelope \<Rightarrow> envelope" where
  "norm_envelope env =
     env\<lparr>e_payload := (e_payload env)\<lparr>pl_value := norm_value (pl_value (e_payload env))\<rparr>\<rparr>"

lemma trim_events_append [simp]: "trim_events (es @ fs) = trim_events es @ trim_events fs"
  by (induction es rule: trim_events.induct) simp_all

lemma xml_trim_split: "\<exists>pre post. s = pre @ xml_trim s @ post"
proof -
  have "xml_trim s @ rev (takeWhile xml_ws (rev (dropWhile xml_ws s))) = dropWhile xml_ws s"
    unfolding xml_trim_def by (metis rev_append rev_rev_ident takeWhile_dropWhile_id)
  then show ?thesis
    by (metis takeWhile_dropWhile_id)
qed

lemma no_markup_trim: "no_markup s \<Longrightarrow> no_markup (xml_trim s)"
  using xml_trim_split [of s] unfolding no_markup_def by (metis list_all_append)

lemma xml_trim_idem: "xml_trim (xml_trim s) = xml_trim s"
proof -
  have "dropWhile xml_ws (xml_trim s) = xml_trim s"
  proof (cases "xml_trim s")
    case (Cons c cs)
    have "xml_trim s @ rev (takeWhile xml_ws (rev (dropWhile xml_ws s))) = dropWhile xml_ws s"
      unfolding xml_trim_def by (metis rev_append rev_rev_ident takeWhile_dropWhile_id)
    with Cons have "dropWhile xml_ws s \<noteq> [] \<and> hd (dropWhile xml_ws s) = c"
      by (metis append_Cons list.distinct(1) list.sel(1))
    then have "\<not> xml_ws c"
      using hd_dropWhile by blast
    then show ?thesis using Cons by simp
  qed simp
  moreover have "dropWhile xml_ws (rev (xml_trim s)) = rev (xml_trim s)"
    by (simp add: xml_trim_def dropWhile_idem)
  ultimately show ?thesis
    unfolding xml_trim_def [of "xml_trim s"] by simp
qed

lemma escape_trim:
  assumes "xml_laws L" "escape_laws L" "text_ok s"
  shows "xml_trim (xml_escape L s) = xml_escape L (xml_trim s)"
  using assms no_markup_trim [of s]
  by (auto simp: text_ok_def escape_laws_def xml_laws_text(2))

section \<open>Values read back\<close>

abbreviation items_of :: "xml_event list \<Rightarrow> reader" where
  "items_of es \<equiv> map Inr (trim_events es)"

lemma attr_read:
  "escape_laws L \<Longrightarrow> attr_ok s \<Longrightarrow> attr_or_default ((k, xml_escape L s) # as) k = s"
  by (simp add: attr_or_default_def get_attr_def attr_ok_def escape_laws_def from_utf8_lossy_valid)

lemma printable_utf8: "printable s \<Longrightarrow> utf8_valid s"
  by (induction s) auto

lemma kinds_ok [simp]:
  "attr_ok ''rec''" "attr_ok ''seq''" "attr_ok ''text''" "attr_ok ''uint''" "attr_ok ''sint''"
  "attr_ok ''real''" "attr_ok ''bool''" "attr_ok ''blob''" "attr_ok ''nil''"
  by (simp_all add: attr_ok_def printable_utf8 no_markup_def code_def)

lemma read_scalar_text:
  assumes "xml_laws L" "escape_laws L" "text_ok t"
  shows "read_scalar L (items_of [XText (xml_escape L t), XEnd ''v''] @ rest) [] = Ok (xml_trim t, rest)"
  using assms by (auto simp: escape_trim xml_laws_text unescape_def)

lemma seq_loop_item:
  assumes "expect_value L (Inr ev # r) = Ok (v, r1)"
    and "ev = XStart ''v'' as \<or> ev = XEmpty ''v'' as"
  shows "seq_loop L vs (Inr ev # r) = seq_loop L (vs @ [v]) r1"
  using assms by (auto simp: expect_value.simps seq_loop.simps [of L vs "Inr ev # r"] attr_or_default_def)

lemma value_events_hd:
  "\<exists>ev es as. trim_events (value_events L v) = ev # es \<and> (ev = XStart ''v'' as \<or> ev = XEmpty ''v'' as)"
  by (cases v) (auto simp: scalar_events_def)

text \<open>The printed form of every scalar needs no trimming.\<close>

lemma printable_text: "printable s \<Longrightarrow> text_ok s \<and> xml_trim s = s"
  by (simp add: text_ok_def xml_trim_printable)

lemma show_u64_printable: "printable (show_u64 n)"
  by (simp add: show_u64_def show_nat_printable)

lemma show_i64_printable: "printable (show_i64 n)"
  by (simp add: show_i64_def show_nat_printable code_def)

lemma bool_printable: "printable (if b then ''true'' else ''false'')"
  by (simp add: code_def)

lemmas scalar_printable = show_u64_printable show_i64_printable bool_printable to_hex_printable

lemma scalar_value:
  assumes "xml_laws L" "escape_laws L" "text_ok t"
    and kind: "attr_ok kind"
    and "\<And>rd. read_scalar L rd [] = Ok (xml_trim t, rest) \<Longrightarrow> parse_value L kind rd = Ok (v, rest)"
  shows "expect_value L (items_of (scalar_events L kind t) @ rest) = Ok (v, rest)"
  using assms(5) [OF read_scalar_text [OF assms(1-3), of rest]]
    attr_read [OF assms(2) kind, of "''k''" "[]"]
  by (simp add: scalar_events_def expect_value.simps split del: if_split)

lemma value_read:
  assumes "xml_laws L" "escape_laws L"
  shows "wf_value L v \<Longrightarrow> expect_value L (items_of (value_events L v) @ rest) = Ok (norm_value v, rest)"
    and "list_all (wf_field L) fs \<Longrightarrow>
      rec_loop L acc (items_of (fields_events L fs @ [XEnd ''v'']) @ rest) = Ok (Rec (acc @ map norm_field fs), rest)"
    and "list_all (wf_value L) vs \<Longrightarrow>
      seq_loop L vacc (items_of (items_events L vs @ [XEnd ''v'']) @ rest) = Ok (Seq (vacc @ map norm_value vs), rest)"
  using assms
proof (induction L v and L fs and L vs arbitrary: rest and acc rest and vacc rest
    rule: value_events_fields_events_items_events.induct)
  case (1 L fs)
  from 1 show ?case
    by (simp add: expect_value.simps attr_read parse_value.simps)
next
  case (2 L vs)
  from 2 show ?case
    by (simp add: expect_value.simps attr_read parse_value.simps)
next
  case (3 L s)
  from 3 show ?case
    by (simp add: scalar_value parse_value.simps)
next
  case (4 L n)
  from 4 printable_text [OF show_u64_printable, of n] show ?case
    by (simp add: scalar_value parse_value.simps)
next
  case (5 L n)
  from 5 printable_text [OF show_i64_printable, of n] show ?case
    by (simp add: scalar_value parse_value.simps)
next
  case (6 L x)
  from 6 printable_text [of "f64_show L x"] show ?case
    by (simp add: scalar_value parse_value.simps f64_laws_def)
next
  case (7 L b)
  from 7 printable_text [OF bool_printable [of b]] show ?case
    by (cases b) (simp_all add: scalar_value parse_value.simps)
next
  case (8 L bs)
  from 8 printable_text [OF to_hex_printable, of bs] show ?case
    by (simp add: scalar_value parse_value.simps from_to_hex)
next
  case (9 L)
  from 9 show ?case
    by (simp add: expect_value.simps attr_read empty_value_def)
next
  case (10 L)
  then show ?case by (simp add: rec_loop.simps)
next
  case (11 L n v fs)
  then show ?case
    by (simp add: rec_loop.simps [of L acc "_ # _"] attr_read)
next
  case (12 L)
  then show ?case by (simp add: seq_loop.simps)
next
  case (13 L v vs)
  obtain ev es as where hd: "trim_events (value_events L v) = ev # es"
    "ev = XStart ''v'' as \<or> ev = XEmpty ''v'' as"
    using value_events_hd by blast
  have "expect_value L (Inr ev # map Inr es @ items_of (items_events L vs @ [XEnd ''v'']) @ rest)
      = Ok (norm_value v, items_of (items_events L vs @ [XEnd ''v'']) @ rest)"
    using 13(1) [of "items_of (items_events L vs @ [XEnd ''v'']) @ rest"] 13(3-) hd(1) by simp
  from seq_loop_item [OF this hd(2), of vacc] show ?case
    using 13 hd(1) by simp
qed

section \<open>Envelopes read back\<close>

lemma name_simps [simp]:
  "xml_name ''v''" "xml_name ''f''" "xml_name ''k''" "xml_name ''n''" "xml_name ''message''"
  "xml_name ''meta''" "xml_name ''payload''" "xml_name ''tag''" "xml_name ''xmlns''"
  "xml_name ''from''" "xml_name ''to''" "xml_name ''thread''" "xml_name ''provenance''"
  by (simp_all add: xml_name_def code_def)

lemma attrs_simps [simp]:
  "xml_attrs esc []" "xml_attrs esc [(k, esc x)] \<longleftrightarrow> xml_name k"
  by (auto simp: xml_attrs_def)

lemma nested_value [simp]:
  "nested (xml_escape L) tags (value_events L v @ es) = nested (xml_escape L) tags es"
  "nested (xml_escape L) tags (fields_events L fs @ es) = nested (xml_escape L) tags es"
  "nested (xml_escape L) tags (items_events L vs @ es) = nested (xml_escape L) tags es"
  by (induction L v and L fs and L vs arbitrary: tags es and tags es and tags es
      rule: value_events_fields_events_items_events.induct)
    (simp_all add: scalar_events_def)

lemma nested_text [simp]:
  "xml_name tag \<Longrightarrow> nested (xml_escape L) tags (text_events L tag t @ es) = nested (xml_escape L) tags es"
  by (simp add: text_events_def)

lemma nested_envelope: "nested (xml_escape L) [] (envelope_events L env)"
  by (cases "m_to (e_meta env)") (simp_all add: envelope_events_def meta_events_def)

lemma encode_read:
  "xml_laws L \<Longrightarrow> encode_envelope L env = Ok bs \<Longrightarrow> xml_read L bs = items_of (envelope_events L env)"
  using xml_laws_read [OF _ nested_envelope, of L env bs] write_all_bytes [of L "envelope_events L env"]
  by (simp add: encode_envelope_bytes)

lemma read_meta_text:
  assumes "xml_laws L" "meta_text t" "tag \<noteq> ''meta''"
  shows "read_meta L field mf (items_of (text_events L tag t) @ rest) =
    bindR (set_meta_field tag t mf) (\<lambda>mf'. read_meta L None mf' rest)"
  using assms by (simp add: text_events_def meta_text_def xml_laws_text unescape_def cong: bindR_cong)

definition meta_read :: "meta \<Rightarrow> meta_fields" where
  "meta_read m = \<lparr>mf_from = Some (m_from m), mf_to = m_to m, mf_thread = Some (m_thread m),
     mf_provenance = m_provenance m\<rparr>"

lemma hex_meta_text: "meta_text (prov_to_hex p)"
  using prov_hex_length [of p] prov_hex_printable [of p]
  by (auto simp: meta_text_def trim_printable xml_trim_printable)

lemma set_meta_field_simps:
  "wf_address a \<Longrightarrow> set_meta_field ''from'' (address_display a) mf = Ok (mf\<lparr>mf_from := Some a\<rparr>)"
  "wf_address a \<Longrightarrow> set_meta_field ''to'' (address_display a) mf = Ok (mf\<lparr>mf_to := Some a\<rparr>)"
  "set_meta_field ''thread'' t mf = Ok (mf\<lparr>mf_thread := Some t\<rparr>)"
  "set_meta_field ''provenance'' (prov_to_hex p) mf = Ok (mf\<lparr>mf_provenance := p\<rparr>)"
  by (simp_all add: set_meta_field_def parse_address_display prov_from_to_hex)

lemma read_meta_events:
  assumes "xml_laws L" "wf_meta m"
  shows "read_meta L None \<lparr>mf_from = None, mf_to = None, mf_thread = None, mf_provenance = EMPTY\<rparr>
      (items_of (meta_events L m @ [XEnd ''meta'']) @ rest) = Ok (meta_read m, rest)"
  using assms
  by (cases "m_to m")
    (simp_all add: meta_events_def wf_meta_def read_meta_text set_meta_field_simps hex_meta_text
      meta_read_def prov_is_empty_iff)

lemma decode_events:
  assumes "xml_laws L" "escape_laws L" "wf_envelope L env"
  shows "decode_loop L \<lparr>mf_from = None, mf_to = None, mf_thread = None, mf_provenance = EMPTY\<rparr> None False
      (items_of (envelope_events L env)) =
    Ok (meta_read (e_meta env), Some (e_payload (norm_envelope env)), True)"
  using assms read_meta_events [of L "e_meta env"] value_read(1) [OF assms(1,2), of "pl_value (e_payload env)"]
  by (simp add: envelope_events_def decode_loop.simps [of _ _ _ _ "_ # _"] wf_envelope_def
      norm_envelope_def attr_read)

lemma decode_encode_env:
  assumes "xml_laws L" "escape_laws L" "wf_envelope L env"
  shows "bindR (encode_envelope L env) (decode_envelope L) = Ok (norm_envelope env)"
  using assms decode_events [OF assms] encode_read [OF assms(1)]
  by (simp add: encode_envelope_bytes decode_envelope_def meta_read_def norm_envelope_def)

text \<open>An envelope in normal form survives unchanged; decoding always yields the normal form.\<close>

lemma norm_value_idem: "norm_value (norm_value v) = norm_value v" "norm_field (norm_field f) = norm_field f"
  by (induction v and f rule: norm_value_norm_field.induct) (simp_all add: xml_trim_idem)

text \<open>
  When \<open>from_hex\<close> panics: the text has an even length, and after pairs of digits comes a pair whose
  end is not a character boundary; then the decoder of the whole document panics.
\<close>

lemma hex_pairs_Panic:
  assumes "is_char_boundary s (2 * m)" "2 * n \<le> length s" "m \<le> n"
  shows "hex_pairs s (map (\<lambda>i. 2 * i) [m..<n]) = Panic \<longleftrightarrow>
    (\<exists>k. m \<le> k \<and> k < n \<and> (\<forall>j. m \<le> j \<and> j < k \<longrightarrow> from_str_radix 16 256 (take 2 (drop (2 * j) s)) \<noteq> None) \<and>
       \<not> is_char_boundary s (2 * k + 2))"
  using assms
proof (induction "n - m" arbitrary: m)
  case (Suc d)
  then have m: "[m..<n] = m # [Suc m..<n]" and less: "m < n"
    by (simp_all add: upt_conv_Cons)
  show ?case
  proof (cases "is_char_boundary s (2 * m + 2)")
    case False
    then show ?thesis
      unfolding m using less by (auto simp: str_slice_def intro!: exI [of _ m])
  next
    case bound: True
    then have slice: "(str_slice s (2 * m) (2 * m + 2) :: (string, pipeline_error) result) = Ok (take 2 (drop (2 * m) s))"
      using Suc.prems(1,2) less by (simp add: str_slice_def)
    show ?thesis
    proof (cases "from_str_radix 16 256 (take 2 (drop (2 * m) s))")
      case None
      have "\<not> (m \<le> k \<and> k < n \<and> (\<forall>j. m \<le> j \<and> j < k \<longrightarrow> from_str_radix 16 256 (take 2 (drop (2 * j) s)) \<noteq> None) \<and>
          \<not> is_char_boundary s (2 * k + 2))" for k
        using None bound by (cases "k = m") auto
      then show ?thesis
        unfolding m using None slice by simp
    next
      case (Some x)
      have "hex_pairs s (map (\<lambda>i. 2 * i) [m..<n]) = Panic \<longleftrightarrow> hex_pairs s (map (\<lambda>i. 2 * i) [Suc m..<n]) = Panic"
        unfolding m using Some slice by (simp add: result_iffs)
      also have "\<dots> \<longleftrightarrow> (\<exists>k. Suc m \<le> k \<and> k < n \<and>
          (\<forall>j. Suc m \<le> j \<and> j < k \<longrightarrow> from_str_radix 16 256 (take 2 (drop (2 * j) s)) \<noteq> None) \<and> \<not> is_char_boundary s (2 * k + 2))"
        using Suc.hyps(2) Suc.prems bound less by (intro Suc.hyps(1)) simp_all
      also have "\<dots> \<longleftrightarrow> (\<exists>k. m \<le> k \<and> k < n \<and>
          (\<forall>j. m \<le> j \<and> j < k \<longrightarrow> from_str_radix 16 256 (take 2 (drop (2 * j) s)) \<noteq> None) \<and> \<not> is_char_boundary s (2 * k + 2))"
        using Some bound by (intro ex_cong1) (metis Suc_le_eq le_eq_less_or_eq option.distinct(1))
      finally show ?thesis .
    qed
  qed
qed simp

lemma from_hex_Panic:
  "from_hex t = Panic \<longleftrightarrow> (let s = trim t in even (length s) \<and> (\<exists>k < length s div 2.
     (\<forall>j < k. from_str_radix 16 256 (take 2 (drop (2 * j) s)) \<noteq> None) \<and> \<not> is_char_boundary s (2 * k + 2)))"
  using hex_pairs_Panic [of "trim t" 0 "length (trim t) div 2"]
  by (auto simp: from_hex_def Let_def is_char_boundary_def [of _ 0] even_iff_mod_2_eq_zero)

lemma decode_blob_panics:
  assumes "xml_laws L" "escape_laws L" "text_ok t"
  shows "decode_envelope L (bytes_of L (XStart ''message'' [] # XStart ''payload'' [] #
    scalar_events L ''blob'' t @ [XEnd ''payload'', XEnd ''message''])) = Panic \<longleftrightarrow> from_hex (xml_trim t) = Panic"
proof -
  let ?es = "XStart ''message'' [] # XStart ''payload'' [] #
    scalar_events L ''blob'' t @ [XEnd ''payload'', XEnd ''message'']"
  have "nested (xml_escape L) [] ?es"
    by (simp add: scalar_events_def)
  then have r: "xml_read L (bytes_of L ?es) = items_of ?es"
    using xml_laws_read [OF assms(1)] write_all_bytes [OF assms(1)] by blast
  have "expect_value L (items_of (scalar_events L ''blob'' t) @ rest) = bindR (from_hex (xml_trim t)) (\<lambda>bs. Ok (Blob bs, rest))" for rest
    using read_scalar_text [OF assms(1-3), of rest] attr_read [OF assms(2), of "''blob''" "''k''" "[]"]
    by (simp add: scalar_events_def expect_value.simps parse_value.simps split del: if_split)
  then show ?thesis
    unfolding decode_envelope_def r
    by (cases "from_hex (xml_trim t)") (simp_all add: decode_loop.simps [of _ _ _ _ "_ # _"])
qed

end
