(* ===== verification/Thread_Registry.thy ===== *)
theory Thread_Registry
  imports Rust_Text
begin

text \<open>
  \<open>src/thread.rs\<close>: the registry that maps opaque thread ids to dot-separated call chains.
  Every operation that may call \<open>Uuid::new_v4\<close> takes the id it would generate as the argument
  \<open>fresh\<close>; that the id is new is a hypothesis of the lemmas, never of the definitions.

  The lemmas show that the two maps stay inverse to each other, what each operation binds, and
  (through the locale \<open>thread_store\<close>) that a binding survives any later traffic, so that a
  reply finds the thread its call came from.
\<close>

section \<open>State and operations\<close>

record thread_registry =
  chain_to_uuid :: "string \<rightharpoonup> string"
  uuid_to_chain :: "string \<rightharpoonup> string"
  root_uuid :: "string option"
  root_chain :: string

record prune_result =
  pr_target :: string
  pr_thread_id :: string

definition thread_new :: thread_registry where
  "thread_new = \<lparr>chain_to_uuid = Map.empty, uuid_to_chain = Map.empty,
     root_uuid = None, root_chain = ''system''\<rparr>"

definition bind_thread :: "thread_registry \<Rightarrow> string \<Rightarrow> string \<Rightarrow> thread_registry" where
  "bind_thread r chain uuid = r\<lparr>chain_to_uuid := (chain_to_uuid r)(chain \<mapsto> uuid),
     uuid_to_chain := (uuid_to_chain r)(uuid \<mapsto> chain)\<rparr>"

definition initialize_root ::
    "thread_registry \<Rightarrow> string \<Rightarrow> string \<Rightarrow> string \<times> thread_registry" where
  "initialize_root r fresh organism_name =
     (case root_uuid r of
        Some uuid \<Rightarrow> (uuid, r)
      | None \<Rightarrow>
          (let r1 = r\<lparr>root_chain := ''system.'' @ organism_name\<rparr>;
               r2 = bind_thread r1 (root_chain r1) fresh
           in (fresh, r2\<lparr>root_uuid := Some fresh\<rparr>)))"

definition thread_lookup :: "thread_registry \<Rightarrow> string \<Rightarrow> string option" where
  "thread_lookup r tid = uuid_to_chain r tid"

definition get_or_create ::
    "thread_registry \<Rightarrow> string \<Rightarrow> string \<Rightarrow> string \<times> thread_registry" where
  "get_or_create r fresh chain =
     (case chain_to_uuid r chain of
        Some uuid \<Rightarrow> (uuid, r)
      | None \<Rightarrow> (fresh, bind_thread r chain fresh))"

definition start_chain ::
    "thread_registry \<Rightarrow> string \<Rightarrow> string \<Rightarrow> string \<Rightarrow> string \<times> thread_registry" where
  "start_chain r fresh initiator target =
     (let chain = initiator @ ''.'' @ target in get_or_create r fresh chain)"

definition register_thread ::
    "thread_registry \<Rightarrow> string \<Rightarrow> string \<Rightarrow> string \<Rightarrow> string \<times> thread_registry" where
  "register_thread r tid initiator target =
     (if uuid_to_chain r tid \<noteq> None then (tid, r)
      else
        (let chain = (if root_uuid r \<noteq> None
                      then root_chain r @ ''.'' @ initiator @ ''.'' @ target
                      else initiator @ ''.'' @ target)
         in case chain_to_uuid r chain of
              Some existing \<Rightarrow> (existing, r)
            | None \<Rightarrow> (tid, bind_thread r chain tid)))"

definition extend_chain ::
    "thread_registry \<Rightarrow> string \<Rightarrow> string \<Rightarrow> string \<Rightarrow> string \<times> thread_registry" where
  "extend_chain r fresh current_uuid next_hop =
     (let current_chain = (case uuid_to_chain r current_uuid of Some c \<Rightarrow> c | None \<Rightarrow> []);
          new_chain = (if current_chain = [] then next_hop else current_chain @ ''.'' @ next_hop)
      in case chain_to_uuid r new_chain of
           Some uuid \<Rightarrow> (uuid, r)
         | None \<Rightarrow> (fresh, bind_thread r new_chain fresh))"

definition cleanup :: "thread_registry \<Rightarrow> string \<Rightarrow> thread_registry" where
  "cleanup r tid =
     (case uuid_to_chain r tid of
        None \<Rightarrow> r
      | Some chain \<Rightarrow> r\<lparr>uuid_to_chain := (uuid_to_chain r)(tid := None),
                         chain_to_uuid := (chain_to_uuid r)(chain := None)\<rparr>)"

definition prune_for_response ::
    "thread_registry \<Rightarrow> string \<Rightarrow> string \<Rightarrow> prune_result option \<times> thread_registry" where
  "prune_for_response r fresh tid =
     (case uuid_to_chain r tid of
        None \<Rightarrow> (None, r)
      | Some chain \<Rightarrow>
          (let parts = split_on (CHR ''.'') chain in
           if length parts \<le> 1 then (None, cleanup r tid)
           else
             (let pruned_parts = butlast parts;
                  target = last pruned_parts;
                  pruned_chain = join_with ''.'' pruned_parts;
                  (new_uuid, r') = (case chain_to_uuid r pruned_chain of
                      Some uuid \<Rightarrow> (uuid, r)
                    | None \<Rightarrow> (fresh, bind_thread r pruned_chain fresh))
              in (Some \<lparr>pr_target = target, pr_thread_id = new_uuid\<rparr>, r'))))"

definition clear_threads :: "thread_registry \<Rightarrow> thread_registry" where
  "clear_threads r = r\<lparr>chain_to_uuid := Map.empty, uuid_to_chain := Map.empty,
     root_uuid := None, root_chain := ''system''\<rparr>"

section \<open>The two maps stay inverse\<close>

definition threads_inv :: "thread_registry \<Rightarrow> bool" where
  "threads_inv r \<longleftrightarrow> (\<forall>c u. chain_to_uuid r c = Some u \<longleftrightarrow> uuid_to_chain r u = Some c)"

lemma threads_inv_new [simp]: "threads_inv thread_new"
  by (simp add: threads_inv_def thread_new_def)

lemma threads_inv_bind:
  "threads_inv r \<Longrightarrow> chain_to_uuid r c = None \<Longrightarrow> uuid_to_chain r u = None \<Longrightarrow>
   threads_inv (bind_thread r c u)"
  by (simp add: threads_inv_def bind_thread_def) (metis option.distinct(1))

lemma threads_invD: "threads_inv r \<Longrightarrow> uuid_to_chain r u = Some c \<Longrightarrow> chain_to_uuid r c = Some u"
  by (simp add: threads_inv_def)

lemma threads_inv_root [simp]:
  "threads_inv (r\<lparr>root_uuid := x\<rparr>) = threads_inv r"
  "threads_inv (r\<lparr>root_chain := y\<rparr>) = threads_inv r"
  by (simp_all add: threads_inv_def)

lemma bind_thread_simps [simp]:
  "chain_to_uuid (bind_thread r c u) = (chain_to_uuid r)(c \<mapsto> u)"
  "uuid_to_chain (bind_thread r c u) = (uuid_to_chain r)(u \<mapsto> c)"
  "root_uuid (bind_thread r c u) = root_uuid r"
  "root_chain (bind_thread r c u) = root_chain r"
  by (simp_all add: bind_thread_def)

text \<open>All three ways to reach a chain are the same operation on a chain string.\<close>

definition chain_below :: "thread_registry \<Rightarrow> string \<Rightarrow> string \<Rightarrow> string" where
  "chain_below r tid hop =
     (case uuid_to_chain r tid of
        None \<Rightarrow> hop | Some c \<Rightarrow> if c = [] then hop else c @ ''.'' @ hop)"

lemma extend_chain_alt: "extend_chain r fresh tid hop = get_or_create r fresh (chain_below r tid hop)"
  by (simp add: extend_chain_def get_or_create_def chain_below_def split: option.splits)

lemma prune_alt:
  assumes "uuid_to_chain r tid = Some (c @ CHR ''.'' # hop)" and "CHR ''.'' \<notin> set hop"
  shows "prune_for_response r fresh tid =
    (let (u, r') = get_or_create r fresh c in
     (Some \<lparr>pr_target = last (split_on (CHR ''.'') c), pr_thread_id = u\<rparr>, r'))"
proof -
  have parts: "split_on (CHR ''.'') (c @ CHR ''.'' # hop) = split_on (CHR ''.'') c @ [hop]"
    using assms(2) by (rule split_on_snoc)
  have "length (split_on (CHR ''.'') c) \<noteq> 0" by simp
  with assms(1) show ?thesis
    by (simp add: prune_for_response_def parts join_split get_or_create_def Let_def split: option.splits)
qed

lemma prune_exhausted:
  "uuid_to_chain r tid = Some c \<Longrightarrow> CHR ''.'' \<notin> set c \<Longrightarrow>
   prune_for_response r fresh tid = (None, cleanup r tid)"
  by (simp add: prune_for_response_def split_on_no_sep)

lemma prune_unknown: "uuid_to_chain r tid = None \<Longrightarrow> prune_for_response r fresh tid = (None, r)"
  by (simp add: prune_for_response_def)

text \<open>A chain is either a single segment or a chain with a last hop.\<close>

lemma chain_cases:
  fixes c :: string
  obtains (single) "CHR ''.'' \<notin> set c" | (hop) d h where "c = d @ CHR ''.'' # h" "CHR ''.'' \<notin> set h"
proof (cases "CHR ''.'' \<in> set c")
  case True
  from split_list_last [OF True] obtain d h where "c = d @ CHR ''.'' # h" "CHR ''.'' \<notin> set h"
    by (elim exE conjE)
  then show thesis by (rule hop)
next
  case False
  then show thesis by (rule single)
qed

lemma get_or_create_inv:
  "threads_inv r \<Longrightarrow> uuid_to_chain r fresh = None \<Longrightarrow> threads_inv (snd (get_or_create r fresh c))"
  by (auto simp: get_or_create_def threads_inv_bind split: option.splits)

lemma cleanup_inv: "threads_inv r \<Longrightarrow> threads_inv (cleanup r tid)"
proof (cases "uuid_to_chain r tid")
  case None
  assume "threads_inv r"
  with None show ?thesis by (simp add: cleanup_def)
next
  case (Some c)
  assume inv: "threads_inv r"
  then have "chain_to_uuid r c = Some tid"
    using Some by (rule threads_invD)
  then have "chain_to_uuid r d = Some u \<and> d \<noteq> c \<longleftrightarrow> uuid_to_chain r u = Some d \<and> u \<noteq> tid" for d u
    using inv Some unfolding threads_inv_def by (metis option.inject)
  with Some show ?thesis
    by (auto simp: cleanup_def threads_inv_def)
qed

lemma prune_inv:
  assumes "threads_inv r" and "uuid_to_chain r fresh = None"
  shows "threads_inv (snd (prune_for_response r fresh tid))"
proof (cases "uuid_to_chain r tid")
  case None
  with assms show ?thesis by (simp add: prune_unknown)
next
  case (Some c)
  then show ?thesis
  proof (cases c rule: chain_cases)
    case single
    with Some assms show ?thesis by (simp add: prune_exhausted cleanup_inv)
  next
    case (hop d h)
    with Some assms show ?thesis
      using get_or_create_inv [of r fresh d] by (auto simp: prune_alt split: prod.splits)
  qed
qed

lemma register_thread_inv: "threads_inv r \<Longrightarrow> threads_inv (snd (register_thread r tid i t))"
  by (auto simp: register_thread_def Let_def threads_inv_bind split: option.splits)

lemma initialize_root_inv:
  "threads_inv r \<Longrightarrow> uuid_to_chain r fresh = None \<Longrightarrow>
   chain_to_uuid r (''system.'' @ org) = None \<Longrightarrow> threads_inv (snd (initialize_root r fresh org))"
  using threads_inv_bind [of "r\<lparr>root_chain := ''system.'' @ org\<rparr>" "''system.'' @ org" fresh]
  by (simp add: initialize_root_def split: option.splits)

lemma extend_chain_inv:
  "threads_inv r \<Longrightarrow> uuid_to_chain r fresh = None \<Longrightarrow> threads_inv (snd (extend_chain r fresh tid hop))"
  by (simp add: extend_chain_alt get_or_create_inv)

lemma clear_threads_inv: "threads_inv (clear_threads r)"
  by (simp add: threads_inv_def clear_threads_def)

section \<open>Bindings are stable: the contract the pipeline relies on\<close>

text \<open>
  The pipeline only reaches the registry through requests for the thread of a chain.  The
  contract: a request answers with a thread bound to the chain, keeps every earlier binding,
  and binds at most the fresh id.
\<close>

locale thread_store =
  fixes inv :: "'s \<Rightarrow> bool"
    and lookup :: "'s \<Rightarrow> string \<Rightarrow> string option"
    and ensure :: "'s \<Rightarrow> string \<Rightarrow> string \<Rightarrow> string \<times> 's"
  assumes ensure_inv: "inv s \<Longrightarrow> lookup s f = None \<Longrightarrow> inv (snd (ensure s f c))"
    and ensure_lookup:
      "inv s \<Longrightarrow> lookup s f = None \<Longrightarrow> lookup (snd (ensure s f c)) (fst (ensure s f c)) = Some c"
    and ensure_keeps: "inv s \<Longrightarrow> lookup s f = None \<Longrightarrow> lookup s t = Some d \<Longrightarrow>
      lookup (snd (ensure s f c)) t = Some d"
    and ensure_only: "inv s \<Longrightarrow> lookup (snd (ensure s f c)) t \<noteq> None \<Longrightarrow> lookup s t = None \<Longrightarrow> t = f"
    and ensure_known: "inv s \<Longrightarrow> lookup s t = Some c \<Longrightarrow> ensure s f c = (t, s)"
begin

text \<open>The state after a list of requests, each with the id it would create.\<close>

lemma requests_keep:
  assumes "inv s" and "lookup s t = Some d" and "distinct (map fst reqs)"
    and "\<And>f. f \<in> fst ` set reqs \<Longrightarrow> lookup s f = None"
  shows "inv (fold (\<lambda>(f, c) s. snd (ensure s f c)) reqs s) \<and>
    lookup (fold (\<lambda>(f, c) s. snd (ensure s f c)) reqs s) t = Some d"
  using assms
proof (induction reqs arbitrary: s)
  case Nil
  then show ?case by simp
next
  case (Cons req reqs)
  obtain f c where req: "req = (f, c)" by fastforce
  let ?s = "snd (ensure s f c)"
  from Cons.prems req have f: "lookup s f = None" by simp
  have later: "lookup ?s g = None" if g: "g \<in> fst ` set reqs" for g
  proof (rule ccontr)
    assume "lookup ?s g \<noteq> None"
    moreover have "lookup s g = None" and "g \<noteq> f"
      using Cons.prems(3,4) g req by auto
    ultimately show False
      using ensure_only [OF \<open>inv s\<close>] by blast
  qed
  have "inv ?s" and "lookup ?s t = Some d"
    using Cons.prems(1,2) f by (simp_all add: ensure_inv ensure_keeps)
  then show ?case
    using Cons.IH [of ?s] later Cons.prems(3) req by simp
qed

text \<open>
  A call and, after any other traffic, its return: asking again for the caller's chain gives
  the caller's thread, unchanged state.
\<close>

lemma call_return:
  assumes "inv s" and "lookup s t = Some d" and "distinct (map fst reqs)"
    and "\<And>f. f \<in> fst ` set reqs \<Longrightarrow> lookup s f = None"
  shows "ensure (fold (\<lambda>(f, c) s. snd (ensure s f c)) reqs s) g d =
    (t, fold (\<lambda>(f, c) s. snd (ensure s f c)) reqs s)"
  using requests_keep [OF assms] by (simp add: ensure_known)

end

interpretation threads: thread_store threads_inv thread_lookup get_or_create
proof unfold_locales
  fix s :: thread_registry and f c t d :: string
  show "threads_inv s \<Longrightarrow> thread_lookup s f = None \<Longrightarrow> threads_inv (snd (get_or_create s f c))"
    by (simp add: thread_lookup_def get_or_create_inv)
  show "threads_inv s \<Longrightarrow> thread_lookup s f = None \<Longrightarrow>
      thread_lookup (snd (get_or_create s f c)) (fst (get_or_create s f c)) = Some c"
    by (auto simp: thread_lookup_def get_or_create_def threads_inv_def split: option.splits)
  show "threads_inv s \<Longrightarrow> thread_lookup s f = None \<Longrightarrow> thread_lookup s t = Some d \<Longrightarrow>
      thread_lookup (snd (get_or_create s f c)) t = Some d"
    by (auto simp: thread_lookup_def get_or_create_def split: option.splits)
  show "threads_inv s \<Longrightarrow> thread_lookup (snd (get_or_create s f c)) t \<noteq> None \<Longrightarrow>
      thread_lookup s t = None \<Longrightarrow> t = f"
    by (auto simp: thread_lookup_def get_or_create_def split: option.splits if_splits)
  show "threads_inv s \<Longrightarrow> thread_lookup s t = Some c \<Longrightarrow> get_or_create s f c = (t, s)"
    by (simp add: thread_lookup_def get_or_create_def threads_invD)
qed

section \<open>Calls and replies\<close>

lemma extend_then_prune:
  assumes "threads_inv r" and "uuid_to_chain r tid = Some c" and "c \<noteq> []"
    and "CHR ''.'' \<notin> set hop" and "uuid_to_chain r f = None"
    and "extend_chain r f tid hop = (u, r')"
  shows "prune_for_response r' g u =
    (Some \<lparr>pr_target = last (split_on (CHR ''.'') c), pr_thread_id = tid\<rparr>, r')"
proof -
  have ext: "get_or_create r f (c @ CHR ''.'' # hop) = (u, r')"
    using assms by (simp add: extend_chain_alt chain_below_def)
  have "thread_lookup r' u = Some (c @ CHR ''.'' # hop)"
    using threads.ensure_lookup [OF assms(1), of f "c @ CHR ''.'' # hop"] assms(5) ext
    by (simp add: thread_lookup_def)
  moreover have "get_or_create r' g c = (tid, r')"
    using threads.ensure_known [of r' tid c g] threads.ensure_inv [OF assms(1), of f]
      threads.ensure_keeps [OF assms(1), of f tid c] assms(2,5) ext
    by (simp add: thread_lookup_def) (metis snd_conv)
  ultimately show ?thesis
    using assms(4) by (simp add: thread_lookup_def prune_alt)
qed

text \<open>Each reply shortens the chain by one segment, so a cascade of replies ends.\<close>

lemma prune_shortens:
  assumes "threads_inv r" and "uuid_to_chain r f = None" and "uuid_to_chain r tid = Some c"
    and "prune_for_response r f tid = (Some p, r')"
  shows "\<exists>d. uuid_to_chain r' (pr_thread_id p) = Some d \<and>
    length (split_on (CHR ''.'') d) < length (split_on (CHR ''.'') c) \<and>
    split_on (CHR ''.'') d = butlast (split_on (CHR ''.'') c) \<and>
    pr_target p = last (split_on (CHR ''.'') d)"
proof (cases c rule: chain_cases)
  case single
  with assms show ?thesis by (simp add: prune_exhausted)
next
  case (hop d h)
  then have "pr_target p = last (split_on (CHR ''.'') d)" and
    "get_or_create r f d = (pr_thread_id p, r')"
    using assms(3,4) by (auto simp: prune_alt split: prod.splits)
  moreover from this(2) have "uuid_to_chain r' (pr_thread_id p) = Some d"
    using threads.ensure_lookup [OF assms(1), of f d] assms(2) by (simp add: thread_lookup_def)
  ultimately show ?thesis
    using hop by (auto simp: split_on_snoc)
qed

lemma register_thread_binds:
  assumes "uuid_to_chain r tid = None"
    and "chain_to_uuid r (if root_uuid r \<noteq> None then root_chain r @ ''.'' @ i @ ''.'' @ t
        else i @ ''.'' @ t) = None"
  shows "fst (register_thread r tid i t) = tid"
    and "uuid_to_chain (snd (register_thread r tid i t)) tid =
      Some (if root_uuid r \<noteq> None then root_chain r @ ''.'' @ i @ ''.'' @ t else i @ ''.'' @ t)"
  using assms by (auto simp: register_thread_def Let_def)

text \<open>
  When the chain already belongs to another id, the id of the message stays unknown: the
  caller has to continue on the id that is returned.
\<close>

lemma register_thread_alias:
  assumes "uuid_to_chain r tid = None"
    and "chain_to_uuid r (if root_uuid r \<noteq> None then root_chain r @ ''.'' @ i @ ''.'' @ t
        else i @ ''.'' @ t) = Some u"
  shows "register_thread r tid i t = (u, r)"
  using assms by (simp add: register_thread_def Let_def)

end
