(* ===== verification/Keyed_Registry.thy ===== *)
theory Keyed_Registry
  imports Main
begin

text \<open>
  The contract shared by the crate's name-keyed tables (listeners by name, schemas by tag,
  peers by namespace): storing an entry under a key makes a lookup of that key return it and
  changes no other key.  The client lemmas say what a whole sequence of registrations leaves
  behind; the interpretations are in the theories of the tables.
\<close>

locale keyed_registry =
  fixes get :: "'s \<Rightarrow> 'k \<Rightarrow> 'v option"
    and put :: "'s \<Rightarrow> 'a \<Rightarrow> 's"
    and key_of :: "'a \<Rightarrow> 'k"
    and entry_of :: "'a \<Rightarrow> 'v"
  assumes get_put: "get (put s a) k = (if k = key_of a then Some (entry_of a) else get s k)"
begin

lemma get_put_same: "get (put s a) (key_of a) = Some (entry_of a)"
  by (simp add: get_put)

lemma get_put_other: "k \<noteq> key_of a \<Longrightarrow> get (put s a) k = get s k"
  by (simp add: get_put)

lemma get_puts_none:
  "(\<And>a. a \<in> set as \<Longrightarrow> key_of a \<noteq> k) \<Longrightarrow> get (foldl put s as) k = get s k"
  by (induction as arbitrary: s) (auto simp: get_put)

text \<open>Of several registrations under one key, the last is the one that counts.\<close>

lemma get_puts_last:
  assumes "\<And>b. b \<in> set later \<Longrightarrow> key_of b \<noteq> key_of a"
  shows "get (foldl put s (before @ a # later)) (key_of a) = Some (entry_of a)"
  using assms by (simp add: get_puts_none get_put)

lemma get_puts_cases:
  assumes "get (foldl put s as) k = Some v"
  shows "get s k = Some v \<or> (\<exists>a \<in> set as. key_of a = k \<and> entry_of a = v)"
  using assms
proof (induction as arbitrary: s)
  case Nil
  then show ?case by simp
next
  case (Cons a as)
  then have "get (put s a) k = Some v \<or> (\<exists>b \<in> set as. key_of b = k \<and> entry_of b = v)"
    by simp
  then show ?case
    by (auto simp: get_put split: if_splits)
qed

end

end
