(* ===== verification/Routing.thy ===== *)
theory Routing
  imports Pipeline_Error Keyed_Registry
begin

text \<open>
  \<open>src/routing.rs\<close>: the routing table.  A \<open>HashSet\<close> of peers is the list of its elements in
  iteration order (without duplicates).  The lemmas say which listener a message reaches after
  a sequence of registrations, that a resolved route is never empty, and exactly when the peer
  check lets a message pass.
\<close>

section \<open>State and operations\<close>

record listener_entry =
  le_name :: string
  le_is_agent :: bool
  le_peers :: "string list"
  le_route_key :: string
  le_description :: string

record routing_table =
  routes :: "string \<rightharpoonup> listener_entry list"
  by_name :: "string \<rightharpoonup> listener_entry"

definition routing_new :: routing_table where
  "routing_new = \<lparr>routes = Map.empty, by_name = Map.empty\<rparr>"

definition routing_register ::
    "routing_table \<Rightarrow> string \<Rightarrow> string \<Rightarrow> bool \<Rightarrow> string list \<Rightarrow> string \<Rightarrow> routing_table" where
  "routing_register t name payload_tag is_agent peers description =
     (let route_key = to_lowercase name @ ''.'' @ to_lowercase payload_tag;
          entry = \<lparr>le_name = name, le_is_agent = is_agent, le_peers = remdups peers,
                   le_route_key = route_key, le_description = description\<rparr>;
          old = (case routes t route_key of None \<Rightarrow> [] | Some es \<Rightarrow> es)
      in t\<lparr>routes := (routes t)(route_key \<mapsto> old @ [entry]),
           by_name := (by_name t)(name \<mapsto> entry)\<rparr>)"

definition get_by_name :: "routing_table \<Rightarrow> string \<Rightarrow> listener_entry option" where
  "get_by_name t name = by_name t name"

definition resolve ::
    "routing_table \<Rightarrow> string option \<Rightarrow> string \<Rightarrow> (listener_entry list, pipeline_error) result" where
  "resolve t to_id payload_tag =
     (let tag_lower = to_lowercase payload_tag;
          route_key = (case to_id of Some to \<Rightarrow> to_lowercase to @ ''.'' @ tag_lower | None \<Rightarrow> tag_lower)
      in case routes t route_key of
           Some entries \<Rightarrow> if entries \<noteq> [] then Ok entries else Err (NoRoute route_key)
         | None \<Rightarrow> Err (NoRoute route_key))"

definition enforce_peers ::
    "routing_table \<Rightarrow> string \<Rightarrow> string \<Rightarrow> (unit, pipeline_error) result" where
  "enforce_peers t from_agent to_agent =
     (case by_name t from_agent of
        None \<Rightarrow> Ok ()
      | Some sender \<Rightarrow>
          if \<not> le_is_agent sender then Ok ()
          else if to_agent \<in> set (le_peers sender) then Ok ()
          else Err (PeerViolation from_agent to_agent (le_peers sender)))"

definition routing_listener_names :: "routing_table \<Rightarrow> string set" where
  "routing_listener_names t = dom (by_name t)"

definition route_keys :: "routing_table \<Rightarrow> string set" where
  "route_keys t = dom (routes t)"

section \<open>Well-formedness\<close>

definition routing_wf :: "routing_table \<Rightarrow> bool" where
  "routing_wf t \<longleftrightarrow>
     (\<forall>k es. routes t k = Some es \<longrightarrow> es \<noteq> [] \<and> (\<forall>e \<in> set es. le_route_key e = k)) \<and>
     (\<forall>n e. by_name t n = Some e \<longrightarrow> le_name e = n \<and>
        (\<exists>es. routes t (le_route_key e) = Some es \<and> e \<in> set es))"

lemma routing_wf_new [simp]: "routing_wf routing_new"
  by (simp add: routing_wf_def routing_new_def)

lemma routing_wf_register: "routing_wf t \<Longrightarrow> routing_wf (routing_register t n tag a ps d)"
  by (auto simp: routing_wf_def routing_register_def Let_def split: option.splits) metis+

definition listener_of :: "string \<times> string \<times> bool \<times> string list \<times> string \<Rightarrow> listener_entry" where
  "listener_of l = (case l of (n, tag, a, ps, d) \<Rightarrow>
     \<lparr>le_name = n, le_is_agent = a, le_peers = remdups ps,
      le_route_key = to_lowercase n @ ''.'' @ to_lowercase tag, le_description = d\<rparr>)"

definition register_listener ::
    "routing_table \<Rightarrow> string \<times> string \<times> bool \<times> string list \<times> string \<Rightarrow> routing_table" where
  "register_listener t l = (case l of (n, tag, a, ps, d) \<Rightarrow> routing_register t n tag a ps d)"

interpretation listeners: keyed_registry get_by_name register_listener fst listener_of
  by unfold_locales
    (auto simp: get_by_name_def register_listener_def routing_register_def listener_of_def Let_def)

section \<open>Resolution\<close>

lemma resolve_nonempty: "resolve t to tag = Ok es \<Longrightarrow> es \<noteq> []"
  by (auto simp: resolve_def Let_def split: option.splits if_splits)

lemma resolve_not_Panic [simp]: "resolve t to tag \<noteq> Panic"
  by (simp add: resolve_def Let_def split: option.splits)

lemma resolve_case:
  "to_lowercase n = to_lowercase n' \<Longrightarrow> to_lowercase tag = to_lowercase tag' \<Longrightarrow>
   resolve t (Some n) tag = resolve t (Some n') tag'"
  by (simp add: resolve_def)

lemma routes_register:
  "routes (routing_register t n tag a ps d) k =
     (if k = to_lowercase n @ ''.'' @ to_lowercase tag
      then Some ((case routes t k of None \<Rightarrow> [] | Some es \<Rightarrow> es) @ [listener_of (n, tag, a, ps, d)])
      else routes t k)"
  by (simp add: routing_register_def listener_of_def Let_def)

lemma resolve_register_new:
  assumes "resolve t (Some n) tag = Err e"
  shows "resolve (routing_register t n tag a ps d) (Some n) tag = Ok [listener_of (n, tag, a, ps, d)]"
  using assms by (auto simp: resolve_def routes_register Let_def split: option.splits if_splits)

lemma resolve_register_keeps_first:
  assumes "resolve t to tg = Ok es"
  shows "\<exists>es'. resolve (routing_register t n tag a ps d) to tg = Ok es' \<and> hd es' = hd es"
  using assms by (auto simp: resolve_def routes_register Let_def split: option.splits if_splits)

section \<open>Peer enforcement\<close>

lemma enforce_peers_Ok:
  "enforce_peers t f to = Ok u \<longleftrightarrow>
     (case by_name t f of None \<Rightarrow> True
      | Some e \<Rightarrow> le_is_agent e \<longrightarrow> to \<in> set (le_peers e))"
  by (auto simp: enforce_peers_def split: option.splits)

lemma enforce_peers_Err:
  "enforce_peers t f to = Err x \<longleftrightarrow>
     (\<exists>e. by_name t f = Some e \<and> le_is_agent e \<and> to \<notin> set (le_peers e) \<and>
          x = PeerViolation f to (le_peers e))"
  by (auto simp: enforce_peers_def split: option.splits)

lemma enforce_peers_not_Panic [simp]: "enforce_peers t f to \<noteq> Panic"
  by (simp add: enforce_peers_def split: option.splits)

lemma enforce_peers_after:
  assumes "\<And>l. l \<in> set later \<Longrightarrow> fst l \<noteq> n"
  shows "enforce_peers (foldl register_listener t (before @ (n, tag, True, ps, d) # later)) n to =
    (if to \<in> set ps then Ok () else Err (PeerViolation n to (remdups ps)))"
  using listeners.get_puts_last [of later "(n, tag, True, ps, d)" t before] assms
  by (simp add: enforce_peers_def get_by_name_def listener_of_def)

end
