(* ===== verification/Validation.thy ===== *)
theory Validation
  imports Wire_Types Xml_Events Keyed_Registry
begin

text \<open>
  \<open>src/validation.rs\<close>: payload schemas, the two validators (over the bytes of an XML payload and
  over a decoded payload value) and the schema registry.  A \<open>HashMap\<close> of field schemas is an
  association list in its iteration order, which Rust leaves open: the verdict is shown not to
  depend on it.
\<close>

section \<open>Schemas\<close>

datatype field_type = FString | FInteger | FBoolean | FComplex payload_schema | FAny
and field_schema = FieldSchema (fs_required: bool) (fs_type: field_type)
and payload_schema =
  PayloadSchema (root_tag: string) (schema_fields: "(string \<times> field_schema) list") (strict: bool)

abbreviation declared :: "payload_schema \<Rightarrow> string set" where
  "declared s \<equiv> fst ` set (schema_fields s)"

definition required_fields :: "payload_schema \<Rightarrow> string set" where
  "required_fields s = {n. \<exists>f. (n, f) \<in> set (schema_fields s) \<and> fs_required f}"

definition schema_has :: "payload_schema \<Rightarrow> string \<Rightarrow> bool" where
  "schema_has s n \<longleftrightarrow> map_of (schema_fields s) n \<noteq> None"

lemma schema_has_iff [simp]: "schema_has s n \<longleftrightarrow> n \<in> declared s"
  by (simp add: schema_has_def map_of_eq_None_iff)

definition unexpected :: "string \<Rightarrow> payload_schema \<Rightarrow> pipeline_error" where
  "unexpected tag s = Validation (Msg ''unexpected element <{tag}> in <{}>'' [tag, root_tag s])"

definition missing :: "string \<Rightarrow> payload_schema \<Rightarrow> pipeline_error" where
  "missing n s = Validation (Msg ''missing required element <{field_name}> in <{}>'' [n, root_tag s])"

text \<open>The last loop of both validators: every required field must have been seen.\<close>

fun check_required ::
    "payload_schema \<Rightarrow> (string \<Rightarrow> bool) \<Rightarrow> (string \<times> field_schema) list \<Rightarrow> (unit, pipeline_error) result" where
  "check_required s seen [] = Ok ()"
| "check_required s seen ((n, f) # fs) =
     (if fs_required f \<and> \<not> seen n then Err (missing n s) else check_required s seen fs)"

section \<open>Validating XML bytes\<close>

definition local_name :: "string \<Rightarrow> string" where
  "local_name name =
     (case from_utf8 (as_bytes name) of None \<Rightarrow> [] | Some s \<Rightarrow> last (split_on CHR '':'' s))"

fun validate_loop ::
    "payload_schema \<Rightarrow> bool \<Rightarrow> string list \<Rightarrow> 32 word \<Rightarrow> reader \<Rightarrow> (bool \<times> string list, pipeline_error) result" where
  "validate_loop s found_root found_fields depth [] = Ok (found_root, found_fields)"
| "validate_loop s found_root found_fields depth (Inl e # r) =
     Err (Validation (Msg ''XML parse error during validation: {e}'' [e]))"
| "validate_loop s found_root found_fields depth (Inr (XStart n as) # r) =
     (let tag = local_name n; depth = depth + 1 in
      if depth = 1 then
        if tag \<noteq> root_tag s
        then Err (Validation (Msg ''expected root <{}>, found <{tag}>'' [root_tag s, tag]))
        else validate_loop s True found_fields depth r
      else if depth = 2 \<and> found_root then
        if strict s \<and> \<not> schema_has s tag then Err (unexpected tag s)
        else validate_loop s found_root (tag # found_fields) depth r
      else validate_loop s found_root found_fields depth r)"
| "validate_loop s found_root found_fields depth (Inr (XEmpty n as) # r) =
     (let tag = local_name n; depth = depth + 1 in
      if depth = 1 then
        if tag \<noteq> root_tag s
        then Err (Validation (Msg ''expected root <{}>, found <{tag}/>'' [root_tag s, tag]))
        else validate_loop s True found_fields (depth - 1) r
      else if depth = 2 \<and> found_root then
        if strict s \<and> \<not> schema_has s tag
        then Err (Validation (Msg ''unexpected element <{tag}/> in <{}>'' [tag, root_tag s]))
        else validate_loop s found_root (tag # found_fields) (depth - 1) r
      else validate_loop s found_root found_fields (depth - 1) r)"
| "validate_loop s found_root found_fields depth (Inr (XEnd n) # r) =
     validate_loop s found_root found_fields (depth - 1) r"
| "validate_loop s found_root found_fields depth (Inr (XText t) # r) =
     validate_loop s found_root found_fields depth r"
| "validate_loop s found_root found_fields depth (Inr (XMisc t) # r) =
     validate_loop s found_root found_fields depth r"

definition validate_payload :: "lib \<Rightarrow> u8 list \<Rightarrow> payload_schema \<Rightarrow> (unit, pipeline_error) result" where
  "validate_payload L payload_xml s =
     bindR (validate_loop s False [] 0 (xml_read L payload_xml)) (\<lambda>(found_root, found_fields).
     if \<not> found_root then Err (Validation (Msg ''no root element found in payload'' []))
     else check_required s (\<lambda>n. n \<in> set found_fields) (schema_fields s))"

section \<open>Validating values\<close>

fun present_fields :: "payload_value \<Rightarrow> string list" where
  "present_fields (Rec fs) = remdups (map fld_name fs)"
| "present_fields _ = []"

fun check_expected :: "payload_schema \<Rightarrow> string list \<Rightarrow> (unit, pipeline_error) result" where
  "check_expected s [] = Ok ()"
| "check_expected s (n # ns) = (if \<not> schema_has s n then Err (unexpected n s) else check_expected s ns)"

definition validate_payload_value :: "payload_value \<Rightarrow> payload_schema \<Rightarrow> (unit, pipeline_error) result" where
  "validate_payload_value v s =
     (let present = present_fields v in
      bindR (if strict s then check_expected s present else Ok ()) (\<lambda>_.
      check_required s (\<lambda>n. n \<in> set present) (schema_fields s)))"

definition permissive_schema :: "string \<Rightarrow> payload_schema" where
  "permissive_schema tag = PayloadSchema tag [] False"

section \<open>The registry\<close>

record schema_registry =
  schemas :: "(string, payload_schema) map"

definition schemas_new :: schema_registry where
  "schemas_new = \<lparr>schemas = Map.empty\<rparr>"

definition schema_register :: "schema_registry \<Rightarrow> payload_schema \<Rightarrow> schema_registry" where
  "schema_register r s = r\<lparr>schemas := (schemas r)(root_tag s \<mapsto> s)\<rparr>"

definition schema_get :: "schema_registry \<Rightarrow> string \<Rightarrow> payload_schema option" where
  "schema_get r tag = schemas r tag"

definition schema_validate ::
    "lib \<Rightarrow> schema_registry \<Rightarrow> string \<Rightarrow> u8 list \<Rightarrow> (unit, pipeline_error) result" where
  "schema_validate L r tag payload_xml =
     (case schemas r tag of
        Some s \<Rightarrow> validate_payload L payload_xml s
      | None \<Rightarrow> validate_payload L payload_xml (permissive_schema tag))"

definition validate_value ::
    "schema_registry \<Rightarrow> string \<Rightarrow> payload_value \<Rightarrow> (unit, pipeline_error) result" where
  "validate_value r tag v =
     (case schemas r tag of
        Some s \<Rightarrow> validate_payload_value v s
      | None \<Rightarrow> validate_payload_value v (permissive_schema tag))"

interpretation schemas: keyed_registry schema_get schema_register root_tag "\<lambda>s. s"
  by unfold_locales (simp add: schema_get_def schema_register_def)

section \<open>What the validators accept\<close>

text \<open>The specification: a set of present field names conforms to a schema.\<close>

definition conforms :: "payload_schema \<Rightarrow> string set \<Rightarrow> bool" where
  "conforms s present \<longleftrightarrow> (strict s \<longrightarrow> present \<subseteq> declared s) \<and> required_fields s \<subseteq> present"

lemma check_required_Ok: "check_required s seen fs = Ok () \<longleftrightarrow> (\<forall>(n, f) \<in> set fs. fs_required f \<longrightarrow> seen n)"
  by (induction fs rule: check_required.induct [of _ s seen]) auto

lemma check_required_fields:
  "check_required s (\<lambda>n. n \<in> A) (schema_fields s) = Ok () \<longleftrightarrow> required_fields s \<subseteq> A"
  by (auto simp: check_required_Ok required_fields_def)

lemma check_required_Err:
  "check_required s seen fs = Err e \<Longrightarrow> \<exists>n f. (n, f) \<in> set fs \<and> fs_required f \<and> \<not> seen n \<and> e = missing n s"
  by (induction s seen fs rule: check_required.induct) (force split: if_splits)+

lemma check_required_not_Panic [simp]: "check_required s seen fs \<noteq> Panic"
  by (induction s seen fs rule: check_required.induct) simp_all

lemma check_expected_Ok: "check_expected s ns = Ok () \<longleftrightarrow> set ns \<subseteq> declared s"
  by (induction s ns rule: check_expected.induct) auto

lemma check_expected_Err: "check_expected s ns = Err e \<Longrightarrow> \<exists>n \<in> set ns. n \<notin> declared s \<and> e = unexpected n s"
  by (induction s ns rule: check_expected.induct) (auto split: if_splits)

lemma check_expected_not_Panic [simp]: "check_expected s ns \<noteq> Panic"
  by (induction s ns rule: check_expected.induct) simp_all

lemma validate_payload_value_Ok:
  "validate_payload_value v s = Ok () \<longleftrightarrow> conforms s (set (present_fields v))"
  by (auto simp: validate_payload_value_def conforms_def Let_def bindR_eq_Ok check_required_fields
      check_expected_Ok)

lemma validate_payload_value_not_Panic [simp]: "validate_payload_value v s \<noteq> Panic"
  by (auto simp: validate_payload_value_def Let_def bindR_eq_Panic)

lemma validate_value_not_Panic [simp]: "validate_value r tag v \<noteq> Panic"
  by (simp add: validate_value_def split: option.splits)

lemma conforms_permissive [simp]: "conforms (permissive_schema tag) A"
  by (simp add: conforms_def permissive_schema_def required_fields_def)

lemma validate_value_unknown: "schema_get r tag = None \<Longrightarrow> validate_value r tag v = Ok ()"
  by (simp add: validate_value_def schema_get_def validate_payload_value_Ok)

lemma validate_value_known:
  "schema_get r tag = Some s \<Longrightarrow> validate_value r tag v = Ok () \<longleftrightarrow> conforms s (set (present_fields v))"
  by (simp add: validate_value_def schema_get_def validate_payload_value_Ok)

section \<open>The byte validator on element documents\<close>

text \<open>
  A record written as elements: a root, one child per field, anything balanced below it.  On such
  a document the byte validator gives the verdict of the value validator.
\<close>

fun closes :: "nat \<Rightarrow> xml_event list \<Rightarrow> bool" where
  "closes d [] = (d = 0)"
| "closes d (XStart n as # es) = closes (Suc d) es"
| "closes d (XEnd n # es) = (d > 0 \<and> closes (d - 1) es)"
| "closes d (XEmpty n as # es) = closes d es"
| "closes d (XText t # es) = closes d es"
| "closes d (XMisc t # es) = closes d es"

fun element_events :: "(string \<times> xml_event list) list \<Rightarrow> xml_event list" where
  "element_events [] = []"
| "element_events ((n, body) # cs) = XStart n [] # body @ XEnd n # element_events cs"

definition document :: "string \<Rightarrow> (string \<times> xml_event list) list \<Rightarrow> xml_event list" where
  "document root cs = XStart root [] # element_events cs @ [XEnd root]"

definition simple_name :: "string \<Rightarrow> bool" where
  "simple_name n \<longleftrightarrow> utf8_valid n \<and> CHR '':'' \<notin> set n"

lemma local_name_simple: "simple_name n \<Longrightarrow> local_name n = n"
  by (simp add: simple_name_def local_name_def from_utf8_def split_on_no_sep)

lemma depth_eq:
  assumes "n < 2 ^ 32"
  shows "(word_of_nat n :: 32 word) = 1 \<longleftrightarrow> n = 1" and "(word_of_nat n :: 32 word) = 2 \<longleftrightarrow> n = 2"
proof -
  have "unat (word_of_nat n :: 32 word) = n"
    using assms by (simp add: unat_of_nat)
  moreover have "unat (1 :: 32 word) = 1" "unat (2 :: 32 word) = 2"
    by simp_all
  ultimately show "(word_of_nat n :: 32 word) = 1 \<longleftrightarrow> n = 1" "(word_of_nat n :: 32 word) = 2 \<longleftrightarrow> n = 2"
    by (metis word_unat_eq_iff)+
qed

lemma depth_succ: "(word_of_nat (2 + d) :: 32 word) + 1 = word_of_nat (3 + d)"
  by simp

lemma depth_deep:
  assumes "3 + d < 2 ^ 32"
  shows "(word_of_nat (2 + d) :: 32 word) + 1 \<noteq> 1" "(word_of_nat (2 + d) :: 32 word) + 1 \<noteq> 2"
  unfolding depth_succ using depth_eq [OF assms] by linarith+

lemma depth_pred: "0 < d \<Longrightarrow> (word_of_nat (2 + d) :: 32 word) - 1 = word_of_nat (2 + (d - 1))"
  by (cases d) simp_all

lemma validate_deeper:
  assumes "depth + 1 \<noteq> 1" "depth + 1 \<noteq> 2"
  shows "validate_loop s fr ff depth (Inr (XStart n as) # r) = validate_loop s fr ff (depth + 1) r"
    and "validate_loop s fr ff depth (Inr (XEmpty n as) # r) = validate_loop s fr ff depth r"
  using assms by (simp_all only: validate_loop.simps Let_def if_False simp_thms add_diff_cancel_right')

lemma validate_body:
  "closes d body \<Longrightarrow> 3 + d + length body < 2 ^ 32 \<Longrightarrow>
   validate_loop s fr ff (word_of_nat (2 + d)) (map Inr body @ rest) = validate_loop s fr ff 2 rest"
proof (induction d body rule: closes.induct)
  case (2 d n as es)
  have "validate_loop s fr ff (word_of_nat (2 + d)) (Inr (XStart n as) # map Inr es @ rest)
      = validate_loop s fr ff (word_of_nat (2 + Suc d)) (map Inr es @ rest)"
    using 2(3) depth_deep [of d] validate_deeper(1) [of "word_of_nat (2 + d)"] by (simp add: ac_simps)
  then show ?case
    using 2 by simp
next
  case (3 d n es)
  then obtain k where "d = Suc k"
    by (cases d) simp_all
  with 3 show ?case
    by (simp add: depth_pred)
next
  case (4 d n as es)
  have "validate_loop s fr ff (word_of_nat (2 + d)) (Inr (XEmpty n as) # map Inr es @ rest)
      = validate_loop s fr ff (word_of_nat (2 + d)) (map Inr es @ rest)"
    using 4(3) depth_deep [of d] validate_deeper(2) [of "word_of_nat (2 + d)"] by (simp add: ac_simps)
  then show ?case
    using 4 by simp
qed (simp_all del: of_nat_add of_nat_Suc)

definition child_ok :: "string \<times> xml_event list \<Rightarrow> bool" where
  "child_ok c \<longleftrightarrow> simple_name (fst c) \<and> closes 0 (snd c) \<and> 3 + length (snd c) < 2 ^ 32"

lemma validate_elements:
  assumes "list_all child_ok cs"
  shows "validate_loop s True ff 1 (map Inr (element_events cs) @ [Inr (XEnd root)]) =
    bindR (if strict s then check_expected s (map fst cs) else Ok ())
      (\<lambda>_. Ok (True, rev (map fst cs) @ ff))"
  using assms
proof (induction cs arbitrary: ff rule: element_events.induct)
  case 1
  then show ?case by simp
next
  case (2 n body cs)
  then show ?case
    using validate_body [of 0 body s True] by (simp add: Let_def child_ok_def local_name_simple)
qed

lemma check_expected_set: "check_expected s ns = Ok () \<longleftrightarrow> check_expected s (remdups ns) = Ok ()"
  by (simp add: check_expected_Ok)

lemma validate_document:
  assumes "xml_read L xml = map Inr (document root cs)" "list_all child_ok cs"
    and "simple_name root"
  shows "validate_payload L xml s = Ok () \<longleftrightarrow> root = root_tag s \<and> conforms s (fst ` set cs)"
  using assms
  by (auto simp: validate_payload_def document_def Let_def local_name_simple validate_elements
      bindR_eq_Ok check_expected_Ok check_required_fields conforms_def image_image)

lemma validate_loop_not_Panic: "validate_loop s fr ff d rd \<noteq> Panic"
  by (induction s fr ff d rd rule: validate_loop.induct) (simp_all add: Let_def)

end
