(* ===== verification/Handlers.thy ===== *)
theory Handlers
  imports Wire_Types Routing Validation
begin

text \<open>
  \<open>src/handler.rs\<close>, \<open>src/middleware.rs\<close> and \<open>src/registry.rs\<close>: what handlers and middleware
  receive and answer, and the listener registry.  Handlers and middleware are host code behind
  a trait: a value of the record types below, whose functions act on the host's state \<open>'s\<close>
  (everything a handler may keep behind \<open>&self\<close>) and may fail or panic.
\<close>

section \<open>Handlers\<close>

record validated_payload =
  vp_tag :: string
  vp_value :: payload_value

definition validated_new :: "string \<Rightarrow> payload_value \<Rightarrow> validated_payload" where
  "validated_new tag v = \<lparr>vp_tag = tag, vp_value = v\<rparr>"

definition to_payload :: "validated_payload \<Rightarrow> payload" where
  "to_payload p = \<lparr>pl_tag = vp_tag p, pl_value = vp_value p\<rparr>"

record handler_context =
  hc_thread_id :: string
  hc_from :: address
  hc_own_name :: address
  hc_provenance :: provenance

datatype handler_response =
    HSend address payload
  | HSpawn address payload
  | HReply payload
  | HNone

definition response_reply :: "payload \<Rightarrow> handler_response" where
  "response_reply p = HReply p"

definition response_send :: "address \<Rightarrow> payload \<Rightarrow> handler_response" where
  "response_send to p = HSend to p"

definition response_spawn :: "address \<Rightarrow> payload \<Rightarrow> handler_response" where
  "response_spawn to p = HSpawn to p"

type_synonym handler_result = "(handler_response, pipeline_error) result"

record 's handler_impl =
  h_handle :: "'s \<Rightarrow> validated_payload \<Rightarrow> handler_context \<Rightarrow> handler_result \<times> 's"
  h_checkpoint :: "'s \<Rightarrow> u8 list option"
  h_restore :: "u8 list \<Rightarrow> 's \<Rightarrow> 's"

text \<open>\<open>FnHandler\<close>: an answering function with the trait's default state surface.\<close>

definition fn_handler ::
    "('s \<Rightarrow> validated_payload \<Rightarrow> handler_context \<Rightarrow> handler_result \<times> 's) \<Rightarrow> 's handler_impl" where
  "fn_handler f = \<lparr>h_handle = f, h_checkpoint = (\<lambda>s. None), h_restore = (\<lambda>blob s. s)\<rparr>"

section \<open>Middleware\<close>

record dispatch_meta =
  dm_from :: string
  dm_to :: string
  dm_thread_id :: string
  dm_payload_tag :: string

datatype pre_verdict = Continue | Transform validated_payload | ShortCircuit handler_response

datatype post_verdict = PassThrough handler_response | Replace handler_response

record 's middleware =
  mw_pre :: "'s \<Rightarrow> dispatch_meta \<Rightarrow> validated_payload \<Rightarrow> (pre_verdict, pipeline_error) result \<times> 's"
  mw_post :: "'s \<Rightarrow> dispatch_meta \<Rightarrow> validated_payload \<Rightarrow> handler_response
    \<Rightarrow> (post_verdict, pipeline_error) result \<times> 's"

text \<open>The trait's default methods.\<close>

definition noop_middleware :: "'s middleware" where
  "noop_middleware = \<lparr>mw_pre = (\<lambda>s m p. (Ok Continue, s)), mw_post = (\<lambda>s m p r. (Ok (PassThrough r), s))\<rparr>"

section \<open>The listener registry\<close>

record listener_meta =
  lm_name :: string
  lm_payload_tag :: string
  lm_is_agent :: bool
  lm_peers :: "string list"
  lm_description :: string

record 's listener_registry =
  handlers :: "string \<rightharpoonup> 's handler_impl"
  lr_routing :: routing_table
  lr_schemas :: schema_registry
  lr_listeners :: "string \<rightharpoonup> listener_meta"

definition registry_new :: "'s listener_registry" where
  "registry_new = \<lparr>handlers = Map.empty, lr_routing = routing_new, lr_schemas = schemas_new,
     lr_listeners = Map.empty\<rparr>"

definition registry_register ::
    "'s listener_registry \<Rightarrow> string \<Rightarrow> string \<Rightarrow> 's handler_impl \<Rightarrow> bool \<Rightarrow> string list \<Rightarrow> string
     \<Rightarrow> payload_schema option \<Rightarrow> 's listener_registry" where
  "registry_register r name payload_tag h is_agent peers description schema =
     r\<lparr>handlers := (handlers r)(name \<mapsto> h),
       lr_routing := routing_register (lr_routing r) name payload_tag is_agent peers description,
       lr_schemas := (case schema of Some s \<Rightarrow> schema_register (lr_schemas r) s | None \<Rightarrow> lr_schemas r),
       lr_listeners := (lr_listeners r)(name \<mapsto>
         \<lparr>lm_name = name, lm_payload_tag = payload_tag, lm_is_agent = is_agent,
          lm_peers = peers, lm_description = description\<rparr>)\<rparr>"

definition get_handler :: "'s listener_registry \<Rightarrow> string \<Rightarrow> 's handler_impl option" where
  "get_handler r name = handlers r name"

definition registry_listener_names :: "'s listener_registry \<Rightarrow> string set" where
  "registry_listener_names r = dom (lr_listeners r)"

definition has_listener :: "'s listener_registry \<Rightarrow> string \<Rightarrow> bool" where
  "has_listener r name \<longleftrightarrow> lr_listeners r name \<noteq> None"

definition listener_info :: "'s listener_registry \<Rightarrow> string \<Rightarrow> (string \<times> bool \<times> string list) option" where
  "listener_info r name =
     map_option (\<lambda>m. (lm_payload_tag m, lm_is_agent m, lm_peers m)) (lr_listeners r name)"

section \<open>The registry's contract\<close>

record 's registration =
  rg_name :: string
  rg_tag :: string
  rg_handler :: "'s handler_impl"
  rg_is_agent :: bool
  rg_peers :: "string list"
  rg_description :: string
  rg_schema :: "payload_schema option"

definition add_listener :: "'s listener_registry \<Rightarrow> 's registration \<Rightarrow> 's listener_registry" where
  "add_listener r l = registry_register r (rg_name l) (rg_tag l) (rg_handler l) (rg_is_agent l)
     (rg_peers l) (rg_description l) (rg_schema l)"

interpretation handler_table: keyed_registry get_handler add_listener rg_name rg_handler
  by unfold_locales (simp add: get_handler_def add_listener_def registry_register_def)

interpretation info_table: keyed_registry listener_info add_listener rg_name
    "\<lambda>l. (rg_tag l, rg_is_agent l, rg_peers l)"
  by unfold_locales (simp add: listener_info_def add_listener_def registry_register_def)

text \<open>
  Consistency: every entry of the routing table belongs to a registered listener with a handler,
  and the peer list in force for a name is the one it was last registered with.
\<close>

definition registry_wf :: "'s listener_registry \<Rightarrow> bool" where
  "registry_wf r \<longleftrightarrow> routing_wf (lr_routing r) \<and>
     (\<forall>k es e. routes (lr_routing r) k = Some es \<longrightarrow> e \<in> set es \<longrightarrow> get_handler r (le_name e) \<noteq> None) \<and>
     (\<forall>n. get_handler r n = None \<longleftrightarrow> listener_info r n = None) \<and>
     (\<forall>n tag a ps. listener_info r n = Some (tag, a, ps) \<longrightarrow>
        (\<exists>e. get_by_name (lr_routing r) n = Some e \<and> le_is_agent e = a \<and> set (le_peers e) = set ps))"

lemma registry_wf_new [simp]: "registry_wf registry_new"
  by (simp add: registry_wf_def registry_new_def routing_new_def get_handler_def listener_info_def
      routing_wf_def)

lemma registry_wf_add:
  assumes "registry_wf r"
  shows "registry_wf (add_listener r l)"
proof -
  let ?r = "add_listener r l"
  have rt: "lr_routing ?r = register_listener (lr_routing r)
      (rg_name l, rg_tag l, rg_is_agent l, rg_peers l, rg_description l)"
    by (simp add: add_listener_def registry_register_def register_listener_def)
  have "routing_wf (lr_routing ?r)"
    using assms by (simp add: rt register_listener_def registry_wf_def routing_wf_register)
  moreover have "get_handler ?r (le_name e) \<noteq> None"
    if "routes (lr_routing ?r) k = Some es" "e \<in> set es" for k es e
    using that assms
    by (auto simp: rt register_listener_def routing_register_def Let_def handler_table.get_put
        registry_wf_def split: if_splits option.splits)
  moreover have "get_handler ?r n = None \<longleftrightarrow> listener_info ?r n = None" for n
    using assms by (simp add: handler_table.get_put info_table.get_put registry_wf_def)
  moreover have "\<exists>e. get_by_name (lr_routing ?r) n = Some e \<and> le_is_agent e = a \<and> set (le_peers e) = set ps"
    if "listener_info ?r n = Some (tag, a, ps)" for n tag a ps
    using that assms
    by (auto simp: rt listeners.get_put info_table.get_put registry_wf_def listener_of_def split: if_splits)
  ultimately show ?thesis
    by (simp add: registry_wf_def)
qed

lemma registry_wf_adds: "registry_wf r \<Longrightarrow> registry_wf (foldl add_listener r ls)"
  by (induction ls arbitrary: r) (simp_all add: registry_wf_add)

text \<open>Every listener of a route of a consistent registry has a handler.\<close>

lemma resolved_have_handlers:
  assumes "registry_wf r" "resolve (lr_routing r) to tag = Ok es" "e \<in> set es"
  shows "\<exists>h. get_handler r (le_name e) = Some h"
  using assms by (auto simp: resolve_def Let_def registry_wf_def split: option.splits if_splits)

lemma resolved_has_handler:
  assumes "registry_wf r" "resolve (lr_routing r) to tag = Ok es"
  shows "\<exists>h. get_handler r (le_name (hd es)) = Some h"
  using resolved_have_handlers [OF assms] resolve_nonempty [OF assms(2)] by simp

lemma to_payload_new [simp]: "to_payload (validated_new t v) = payload_new t v"
  by (simp add: to_payload_def validated_new_def payload_new_def)

end
