(* ===== verification/Federation.thy ===== *)
theory Federation
  imports Codec Keyed_Registry
begin

text \<open>
  \<open>src/federation.rs\<close>: the sealed frame between nodes (header, nonce, AEAD), the peer directory
  and the federation server.  The AEAD cipher, the nonce source, the transport, the authorizer
  and the local delivery are outside this crate or behind a trait: they are arguments.  The
  documented behaviour of the AEAD is the predicate \<open>aead_laws\<close>; the contract of local delivery
  is the locale \<open>local_delivery\<close>.
\<close>

section \<open>Frames\<close>

datatype federation_error =
    UnknownPeer string
  | MalformedFrame
  | UnsupportedVersion u8
  | UnsupportedAuth u8
  | OpenFailed
  | Nonce
  | FedNoDestination
  | NotRemote string
  | Transport string
  | Delivery message
  | Unauthorized string
  | FedCodec pipeline_error

definition NONCE_LEN :: nat where "NONCE_LEN = 24"
definition VERSION :: u8 where "VERSION = 1"
definition AUTH_PSK :: u8 where "AUTH_PSK = 0"

definition reroot_origin :: "address \<Rightarrow> string \<Rightarrow> address" where
  "reroot_origin frm ns =
     \<lparr>segments = \<lparr>seg_name = ns, seg_key = None\<rparr> #
        (if length (segments frm) \<ge> 2 then drop 1 (segments frm) else segments frm)\<rparr>"

definition to_be_bytes :: "u16 \<Rightarrow> u8 list" where
  "to_be_bytes w = [ucast (drop_bit 8 w), ucast w]"

definition from_be_bytes :: "u8 \<Rightarrow> u8 \<Rightarrow> u16" where
  "from_be_bytes a b = push_bit 8 (ucast a) OR ucast b"

definition encode_header :: "string \<Rightarrow> u8 list" where
  "encode_header sender =
     [VERSION, AUTH_PSK] @ to_be_bytes (word_of_nat (length sender)) @ as_bytes sender"

definition parse_header :: "u8 list \<Rightarrow> (u8 list \<times> string \<times> nat, federation_error) result" where
  "parse_header frame =
     (if length frame < 4 then Err MalformedFrame
      else if frame ! 0 \<noteq> VERSION then Err (UnsupportedVersion (frame ! 0))
      else if frame ! 1 \<noteq> AUTH_PSK then Err (UnsupportedAuth (frame ! 1))
      else
        (let sender_len = unat (from_be_bytes (frame ! 2) (frame ! 3));
             stop = 4 + sender_len
         in if length frame < stop then Err MalformedFrame
            else case from_utf8 (take sender_len (drop 4 frame)) of
                   None \<Rightarrow> Err MalformedFrame
                 | Some sender \<Rightarrow> Ok (take stop frame, sender, stop)))"

text \<open>The AEAD: key, nonce, message (or cipher text), associated data.\<close>

type_synonym peer_key = "u8 list"

record aead =
  aead_encrypt :: "peer_key \<Rightarrow> u8 list \<Rightarrow> u8 list \<Rightarrow> u8 list \<Rightarrow> u8 list option"
  aead_decrypt :: "peer_key \<Rightarrow> u8 list \<Rightarrow> u8 list \<Rightarrow> u8 list \<Rightarrow> u8 list option"

text \<open>
  Documented behaviour: a cipher text opens, under the same key, nonce and associated data, to
  the message it was made from, and nothing but such a cipher text opens.
\<close>

definition aead_laws :: "aead \<Rightarrow> bool" where
  "aead_laws A \<longleftrightarrow> (\<forall>k n c a m. aead_decrypt A k n c a = Some m \<longleftrightarrow> aead_encrypt A k n m a = Some c)"

definition key_ok :: "peer_key \<Rightarrow> bool" where
  "key_ok k \<longleftrightarrow> length k = 32"

definition seal ::
    "lib \<Rightarrow> aead \<Rightarrow> u8 list option \<Rightarrow> envelope \<Rightarrow> string \<Rightarrow> peer_key \<Rightarrow> (u8 list, federation_error) result" where
  "seal L A nonce env sender key =
     bindR (map_err FedCodec (encode_envelope L env)) (\<lambda>plaintext.
     (let header = encode_header sender in
      if \<not> key_ok key then Err OpenFailed
      else bindR (ok_or Nonce nonce) (\<lambda>nonce_bytes.
           bindR (ok_or OpenFailed (aead_encrypt A key nonce_bytes plaintext header)) (\<lambda>ct.
           Ok (header @ nonce_bytes @ ct)))))"

section \<open>The peer directory\<close>

record peer =
  peer_namespace :: string
  peer_endpoint :: string
  peer_key :: peer_key
  inbound_provenance :: provenance

record peer_directory =
  peers :: "string \<rightharpoonup> peer"

definition directory_new :: peer_directory where
  "directory_new = \<lparr>peers = Map.empty\<rparr>"

definition directory_register :: "peer_directory \<Rightarrow> peer \<Rightarrow> peer_directory" where
  "directory_register d p = d\<lparr>peers := (peers d)(peer_namespace p \<mapsto> p)\<rparr>"

definition directory_get :: "peer_directory \<Rightarrow> string \<Rightarrow> peer option" where
  "directory_get d ns = peers d ns"

definition is_remote :: "peer_directory \<Rightarrow> string \<Rightarrow> bool" where
  "is_remote d ns \<longleftrightarrow> peers d ns \<noteq> None"

interpretation peer_table: keyed_registry directory_get directory_register peer_namespace "\<lambda>p. p"
  by unfold_locales (simp add: directory_get_def directory_register_def)

definition open_frame ::
    "lib \<Rightarrow> aead \<Rightarrow> u8 list \<Rightarrow> peer_directory \<Rightarrow> (envelope \<times> string, federation_error) result" where
  "open_frame L A frame d =
     bindR (parse_header frame) (\<lambda>(header, sender, body_off).
     bindR (ok_or (UnknownPeer sender) (directory_get d sender)) (\<lambda>p.
     (let body = drop body_off frame in
      if length body < NONCE_LEN then Err MalformedFrame
      else
        (let nonce_bytes = take NONCE_LEN body; ct = drop NONCE_LEN body in
         if \<not> key_ok (peer_key p) then Err OpenFailed
         else bindR (ok_or OpenFailed (aead_decrypt A (peer_key p) nonce_bytes ct header)) (\<lambda>plaintext.
              bindR (map_err FedCodec (decode_envelope L plaintext)) (\<lambda>env.
              Ok (env, sender)))))))"

section \<open>The server\<close>

text \<open>
  \<open>Authorizer\<close>, \<open>Transport\<close> and \<open>LocalDelivery\<close> are traits of the host; transport and delivery
  act on the host's state.
\<close>

type_synonym authorizer = "address \<Rightarrow> address \<Rightarrow> (unit, string) result"
type_synonym 't transport = "string \<Rightarrow> u8 list \<Rightarrow> 't \<Rightarrow> (unit, string) result \<times> 't"
type_synonym 'd delivery = "envelope \<Rightarrow> 'd \<Rightarrow> (unit, message) result \<times> 'd"

definition allow_all :: authorizer where
  "allow_all frm to = Ok ()"

record federation_server =
  fs_node :: string
  fs_directory :: peer_directory
  fs_authorizer :: authorizer

record federation_egress =
  fe_directory :: peer_directory

definition fed_send ::
    "lib \<Rightarrow> aead \<Rightarrow> 't transport \<Rightarrow> federation_server \<Rightarrow> u8 list option \<Rightarrow> envelope \<Rightarrow> 't
     \<Rightarrow> (unit, federation_error) result \<times> 't" where
  "fed_send L A transport srv nonce env t =
     (case m_to (e_meta env) of
        None \<Rightarrow> (Err FedNoDestination, t)
      | Some to \<Rightarrow>
          (case segments to of
             [] \<Rightarrow> (Err FedNoDestination, t)
           | s # _ \<Rightarrow>
               (case directory_get (fs_directory srv) (seg_name s) of
                  None \<Rightarrow> (Err (NotRemote (seg_name s)), t)
                | Some p \<Rightarrow>
                    (case seal L A nonce env (fs_node srv) (peer_key p) of
                       Ok frame \<Rightarrow>
                         (let (res, t') = transport (peer_endpoint p) frame t
                          in (map_err Transport res, t'))
                     | Err e \<Rightarrow> (Err e, t)
                     | Panic \<Rightarrow> (Panic, t)))))"

definition stamp_inbound :: "federation_server \<Rightarrow> string \<Rightarrow> envelope \<Rightarrow> envelope" where
  "stamp_inbound srv sender env =
     (let edge = (case directory_get (fs_directory srv) sender of
                    Some p \<Rightarrow> inbound_provenance p | None \<Rightarrow> EMPTY);
          m = e_meta env
      in env\<lparr>e_meta := m\<lparr>m_from := reroot_origin (m_from m) sender,
                          m_provenance := union_with (m_provenance m) edge\<rparr>\<rparr>)"

definition strip_node :: "federation_server \<Rightarrow> address \<Rightarrow> address" where
  "strip_node srv to =
     (if length (segments to) > 1 \<and> seg_name (segments to ! 0) = fs_node srv
      then \<lparr>segments = drop 1 (segments to)\<rparr> else to)"

definition localize :: "federation_server \<Rightarrow> envelope \<Rightarrow> envelope" where
  "localize srv env =
     env\<lparr>e_meta := (e_meta env)\<lparr>m_to := map_option (strip_node srv) (m_to (e_meta env))\<rparr>\<rparr>"

definition authorize_inbound :: "federation_server \<Rightarrow> envelope \<Rightarrow> (unit, federation_error) result" where
  "authorize_inbound srv env =
     (case m_to (e_meta env) of
        Some to \<Rightarrow> map_err Unauthorized (fs_authorizer srv (m_from (e_meta env)) to)
      | None \<Rightarrow> Ok ())"

definition fed_receive ::
    "lib \<Rightarrow> aead \<Rightarrow> 'd delivery \<Rightarrow> federation_server \<Rightarrow> u8 list \<Rightarrow> 'd
     \<Rightarrow> (unit, federation_error) result \<times> 'd" where
  "fed_receive L A deliver srv frame d =
     (case open_frame L A frame (fs_directory srv) of
        Err e \<Rightarrow> (Err e, d)
      | Panic \<Rightarrow> (Panic, d)
      | Ok (env0, sender) \<Rightarrow>
          (let env = stamp_inbound srv sender env0 in
           case authorize_inbound srv env of
             Err e \<Rightarrow> (Err e, d)
           | Panic \<Rightarrow> (Panic, d)
           | Ok _ \<Rightarrow> (let (res, d') = deliver (localize srv env) d in (map_err Delivery res, d'))))"

text \<open>
  \<open>run_egress\<close>: every envelope of the receiver is sent, an error is logged and skipped; each
  send takes its own nonce.
\<close>

fun run_egress ::
    "lib \<Rightarrow> aead \<Rightarrow> 't transport \<Rightarrow> federation_server \<Rightarrow> (envelope \<times> u8 list option) list \<Rightarrow> 't
     \<Rightarrow> (unit, federation_error) result list \<times> 't" where
  "run_egress L A transport srv [] t = ([], t)"
| "run_egress L A transport srv ((env, nonce) # rx) t =
     (case fed_send L A transport srv nonce env t of
        (Panic, t') \<Rightarrow> ([Panic], t')
      | (res, t') \<Rightarrow>
          (let (rs, t'') = run_egress L A transport srv rx t' in (res # rs, t'')))"

section \<open>Header laws\<close>

lemma be_bytes_round: "from_be_bytes (ucast (drop_bit 8 w)) (ucast w) = w"
  unfolding from_be_bytes_def by (rule bit_word_eqI) (auto simp: bit_simps)

lemma be_bytes_back: "to_be_bytes (from_be_bytes a b) = [a, b]"
proof -
  have "\<not> bit b (8 + n)" for n
    using bit_imp_le_length [of b "8 + n"] by auto
  then show ?thesis
    unfolding to_be_bytes_def from_be_bytes_def
    by (auto intro!: bit_word_eqI simp: bit_simps)
qed

lemma take_four: "take (4 + n) (a # b # c # d # r) = a # b # c # d # take n r"
  by (simp add: numeral_eq_Suc)

lemma encode_header_length [simp]: "length (encode_header s) = 4 + length s"
  by (simp add: encode_header_def to_be_bytes_def as_bytes_def)

lemma encode_header_nth [simp]:
  "encode_header s @ body = VERSION # AUTH_PSK # ucast (drop_bit 8 (word_of_nat (length s) :: u16)) #
     ucast (word_of_nat (length s) :: u16) # as_bytes s @ body"
  by (simp add: encode_header_def to_be_bytes_def)

lemma parse_encode_header:
  assumes "length s < 65536" "utf8_valid s"
  shows "parse_header (encode_header s @ body) = Ok (encode_header s, s, 4 + length s)"
proof -
  have len: "unat (word_of_nat (length s) :: u16) = length s"
    using assms(1) by (simp add: unat_of_nat)
  have "take (length s) (as_bytes s @ body) = as_bytes s"
    by (simp add: as_bytes_def)
  then show ?thesis
    using assms(2)
    by (simp add: parse_header_def be_bytes_round len from_utf8_def Let_def)
      (simp add: take_four as_bytes_def encode_header_def to_be_bytes_def)
qed

lemma parse_header_sound:
  assumes "parse_header frame = Ok (header, sender, off)"
  shows "header = encode_header sender" "off = 4 + length sender" "length sender < 65536"
    "utf8_valid sender" "frame = encode_header sender @ drop off frame"
proof -
  from assms obtain a b rest where frame: "frame = VERSION # AUTH_PSK # a # b # rest"
    by (auto simp: parse_header_def Suc_le_length_iff not_less numeral_eq_Suc split: if_splits)
  define n where "n = unat (from_be_bytes a b)"
  from assms have n: "n \<le> length rest" and s: "utf8_valid (of_bytes (take n rest))"
      "sender = of_bytes (take n rest)" and h: "header = take (4 + n) frame" "off = 4 + n"
    by (auto simp: parse_header_def frame Let_def n_def from_utf8_def split: if_splits)
  have len: "length sender = n"
    using n by (simp add: s of_bytes_def)
  have "(word_of_nat n :: u16) = from_be_bytes a b"
    by (simp add: n_def)
  then have enc: "encode_header sender = take (4 + n) frame"
    using be_bytes_back [of a b] by (simp add: encode_header_def len frame take_four) (simp add: s)
  show "header = encode_header sender" "off = 4 + length sender"
    using h enc len by simp_all
  show "length sender < 65536"
    using unsigned_less [of "from_be_bytes a b", where ?'a = nat] by (simp add: len n_def)
  show "utf8_valid sender"
    using s by simp
  show "frame = encode_header sender @ drop off frame"
    by (simp only: enc h append_take_drop_id)
qed

section \<open>Sealed frames\<close>

lemma open_seal:
  assumes aead: "aead_laws A" and sealed: "seal L A nonce env sender (peer_key p) = Ok frame"
    and nonce: "\<And>n. nonce = Some n \<Longrightarrow> length n = 24"
    and sender: "length sender < 65536" "utf8_valid sender" "directory_get d sender = Some p"
  shows "open_frame L A frame d =
    bindR (map_err FedCodec (bindR (encode_envelope L env) (decode_envelope L))) (\<lambda>env'. Ok (env', sender))"
proof -
  from sealed obtain pt n ct where pt: "encode_envelope L env = Ok pt" and n: "nonce = Some n"
    and key: "key_ok (peer_key p)"
    and ct: "aead_encrypt A (peer_key p) n pt (encode_header sender) = Some ct"
    and frame: "frame = encode_header sender @ n @ ct"
    by (auto simp: seal_def Let_def result_iffs split: if_splits)
  have "aead_decrypt A (peer_key p) n ct (encode_header sender) = Some pt"
    using aead ct by (simp add: aead_laws_def)
  then show ?thesis
    using parse_encode_header [OF sender(1,2), of "n @ ct"] sender(3) key nonce [OF n]
    by (simp add: open_frame_def frame pt NONCE_LEN_def Let_def del: encode_header_nth)
qed

text \<open>
  What opens was sealed: an accepted frame is byte for byte a frame that sealing under the
  registered key of the peer it names produces, with the header bound to the message.
\<close>

lemma open_frame_sound:
  assumes aead: "aead_laws A" and opened: "open_frame L A frame d = Ok (env, sender)"
  shows "\<exists>p pt n ct. directory_get d sender = Some p \<and> key_ok (peer_key p) \<and> length n = 24 \<and>
    length sender < 65536 \<and> utf8_valid sender \<and> frame = encode_header sender @ n @ ct \<and>
    aead_encrypt A (peer_key p) n pt (encode_header sender) = Some ct \<and> decode_envelope L pt = Ok env"
proof -
  from opened obtain header off p pt where ph: "parse_header frame = Ok (header, sender, off)"
    and p: "directory_get d sender = Some p" and len: "24 \<le> length (drop off frame)"
    and dec: "aead_decrypt A (peer_key p) (take 24 (drop off frame)) (drop 24 (drop off frame)) header = Some pt"
    and env: "decode_envelope L pt = Ok env" and key: "key_ok (peer_key p)"
    by (auto simp: open_frame_def Let_def result_iffs NONCE_LEN_def not_less split: if_splits)
  note snd = parse_header_sound [OF ph]
  have "frame = encode_header sender @ take 24 (drop off frame) @ drop 24 (drop off frame)"
    using snd(5) by (metis append_take_drop_id)
  moreover have "length (take 24 (drop off frame)) = 24"
    using len by simp
  moreover have "aead_encrypt A (peer_key p) (take 24 (drop off frame)) pt (encode_header sender)
      = Some (drop 24 (drop off frame))"
    using dec aead snd(1) unfolding aead_laws_def by blast
  ultimately show ?thesis
    using p env key snd by blast
qed

text \<open>And such a frame opens.\<close>

lemma open_frame_complete:
  assumes "aead_laws A" "directory_get d sender = Some p" "key_ok (peer_key p)" "length n = 24"
    and "length sender < 65536" "utf8_valid sender"
    and "aead_encrypt A (peer_key p) n pt (encode_header sender) = Some ct" "decode_envelope L pt = Ok env"
  shows "open_frame L A (encode_header sender @ n @ ct) d = Ok (env, sender)"
proof -
  have "aead_decrypt A (peer_key p) n ct (encode_header sender) = Some pt"
    using assms(1,7) by (simp add: aead_laws_def)
  then show ?thesis
    using parse_encode_header [OF assms(5,6), of "n @ ct"] assms(2-4,8)
    by (simp add: open_frame_def NONCE_LEN_def Let_def del: encode_header_nth)
qed

lemma open_unknown:
  assumes "directory_get d sender = None" "parse_header frame = Ok (header, sender, off)"
  shows "open_frame L A frame d = Err (UnknownPeer sender)"
  using assms by (simp add: open_frame_def)

section \<open>Admission of inbound frames\<close>

lemma receive_cases:
  assumes "fed_receive L A deliver srv frame d = (res, d')"
  obtains (refused) "d' = d" "res \<noteq> Ok ()"
    | (delivered) env sender r where "open_frame L A frame (fs_directory srv) = Ok (env, sender)"
        "authorize_inbound srv (stamp_inbound srv sender env) = Ok ()"
        "deliver (localize srv (stamp_inbound srv sender env)) d = (r, d')" "res = map_err Delivery r"
proof (cases "\<exists>env sender. open_frame L A frame (fs_directory srv) = Ok (env, sender) \<and>
    authorize_inbound srv (stamp_inbound srv sender env) = Ok ()")
  case True
  then obtain env sender where o: "open_frame L A frame (fs_directory srv) = Ok (env, sender)"
    and a: "authorize_inbound srv (stamp_inbound srv sender env) = Ok ()" by blast
  obtain r d'' where d: "deliver (localize srv (stamp_inbound srv sender env)) d = (r, d'')"
    by (cases "deliver (localize srv (stamp_inbound srv sender env)) d")
  have "fed_receive L A deliver srv frame d = (map_err Delivery r, d'')"
    by (simp add: fed_receive_def o a d Let_def)
  with assms d show thesis
    using delivered [OF o a] by simp
next
  case False
  then have "\<exists>e. fed_receive L A deliver srv frame d = (e, d) \<and> e \<noteq> Ok ()"
    by (auto simp: fed_receive_def Let_def split: result.split prod.split)
  with assms show thesis
    using refused by auto
qed

lemma stamp_inbound_simps [simp]:
  "m_from (e_meta (stamp_inbound srv sender env)) = reroot_origin (m_from (e_meta env)) sender"
  "m_to (e_meta (stamp_inbound srv sender env)) = m_to (e_meta env)"
  "m_thread (e_meta (stamp_inbound srv sender env)) = m_thread (e_meta env)"
  "e_payload (stamp_inbound srv sender env) = e_payload env"
  by (simp_all add: stamp_inbound_def Let_def)

lemma stamp_inbound_provenance:
  "prov_set (m_provenance (e_meta (stamp_inbound srv sender env))) = prov_set (m_provenance (e_meta env)) \<union>
     (case directory_get (fs_directory srv) sender of Some p \<Rightarrow> prov_set (inbound_provenance p) | None \<Rightarrow> {})"
  by (simp add: stamp_inbound_def Let_def split: option.splits)

lemma localize_simps [simp]:
  "m_from (e_meta (localize srv env)) = m_from (e_meta env)"
  "m_to (e_meta (localize srv env)) = map_option (strip_node srv) (m_to (e_meta env))"
  "m_thread (e_meta (localize srv env)) = m_thread (e_meta env)"
  "m_provenance (e_meta (localize srv env)) = m_provenance (e_meta env)"
  "e_payload (localize srv env) = e_payload env"
  by (simp_all add: localize_def)

lemma reroot_head: "segments (reroot_origin a ns) \<noteq> []"
  "hd (segments (reroot_origin a ns)) = \<lparr>seg_name = ns, seg_key = None\<rparr>"
  by (simp_all add: reroot_origin_def)

text \<open>
  The contract of a local delivery: a delivered envelope is the one message accepted, and a
  failed delivery accepts nothing.
\<close>

locale local_delivery =
  fixes deliver :: "'d delivery"
    and accepted :: "'d \<Rightarrow> 'b list"
    and carries :: "'b \<Rightarrow> envelope \<Rightarrow> bool"
  assumes deliver_ok: "deliver env d = (Ok (), d') \<Longrightarrow> \<exists>b. accepted d' = accepted d @ [b] \<and> carries b env"
    and deliver_fail: "deliver env d = (r, d') \<Longrightarrow> r \<noteq> Ok () \<Longrightarrow> accepted d' = accepted d"
begin

definition admitted :: "lib \<Rightarrow> aead \<Rightarrow> federation_server \<Rightarrow> u8 list \<Rightarrow> 'b \<Rightarrow> bool" where
  "admitted L A srv frame b \<longleftrightarrow>
     (\<exists>env sender. open_frame L A frame (fs_directory srv) = Ok (env, sender) \<and>
        authorize_inbound srv (stamp_inbound srv sender env) = Ok () \<and>
        carries b (localize srv (stamp_inbound srv sender env)))"

lemma receive_accepts:
  assumes "fed_receive L A deliver srv frame d = (res, d')"
  shows "(res = Ok () \<and> (\<exists>b. accepted d' = accepted d @ [b] \<and> admitted L A srv frame b)) \<or>
    (res \<noteq> Ok () \<and> accepted d' = accepted d)"
  using assms
proof (cases rule: receive_cases)
  case refused
  then show ?thesis by simp
next
  case (delivered env sender r)
  show ?thesis
  proof (cases "r = Ok ()")
    case True
    with delivered deliver_ok show ?thesis
      unfolding admitted_def by fastforce
  next
    case False
    with delivered deliver_fail [OF delivered(3)] show ?thesis
      by (cases r) simp_all
  qed
qed

text \<open>Over any sequence of frames, every accepted message was admitted from one of them.\<close>

lemma receives_accept:
  assumes "b \<in> set (accepted (foldl (\<lambda>d frame. snd (fed_receive L A deliver srv frame d)) d frames))"
  shows "b \<in> set (accepted d) \<or> (\<exists>frame \<in> set frames. admitted L A srv frame b)"
  using assms
proof (induction frames arbitrary: d)
  case Nil
  then show ?case by simp
next
  case (Cons frame frames)
  obtain res d' where r: "fed_receive L A deliver srv frame d = (res, d')"
    by (cases "fed_receive L A deliver srv frame d")
  from Cons.IH [of d'] Cons.prems r
  have "b \<in> set (accepted d') \<or> (\<exists>frame \<in> set frames. admitted L A srv frame b)" by simp
  with receive_accepts [OF r] show ?case by auto
qed

end

end
