(* ===== verification/Pipeline_Stages.thy ===== *)
theory Pipeline_Stages
  imports Codec_Laws Thread_Registry Handlers Federation
begin

text \<open>
  \<open>src/pipeline.rs\<close>, the work of each stage on one message: parsing, schema validation, routing
  with peer enforcement and thread registration, and the handling of a routed message
  (middleware, handler, response).  What a worker does with a message is a list of actions, in the
  order the code performs them: running the handler, updating the thread registry for the
  response, sending, reporting.  The channels are in \<open>Pipeline\<close>, the workers in \<open>Workers\<close>.
\<close>

section \<open>Messages between the stages\<close>

record validated_msg =
  vm_envelope :: envelope
  vm_payload :: validated_payload

record routed_msg =
  rm_envelope :: envelope
  rm_payload :: validated_payload
  rm_target :: string

datatype call_kind = Sync | Async

text \<open>
  What a worker is about to do: run the handler on a message, take the registry's lock to respond,
  send into the ingress, report an edge to the observer.
\<close>

datatype action =
    ARun routed_msg
  | ARespond routed_msg handler_response
  | ASend "u8 list"
  | AOpen string string string call_kind
  | AClose string

record 's dispatch_ctx =
  dx_registry :: "'s listener_registry"
  dx_middleware :: "'s middleware list"
  dx_observed :: bool

section \<open>Parse, validate, route\<close>

definition parse_msg_stage :: "lib \<Rightarrow> u8 list \<Rightarrow> (envelope, pipeline_error) result" where
  "parse_msg_stage L raw = decode_envelope L raw"

definition validate_msg :: "'s listener_registry \<Rightarrow> envelope \<Rightarrow> (validated_msg, pipeline_error) result" where
  "validate_msg reg env =
     (let tag = pl_tag (e_payload env) in
      bindR (validate_value (lr_schemas reg) tag (pl_value (e_payload env))) (\<lambda>_.
      Ok \<lparr>vm_envelope = env, vm_payload = \<lparr>vp_tag = tag, vp_value = pl_value (e_payload env)\<rparr>\<rparr>))"

datatype route_outcome = Egress envelope | Routed routed_msg | Dropped pipeline_error

definition remote_to :: "federation_egress \<Rightarrow> envelope \<Rightarrow> bool" where
  "remote_to fed env =
     (case m_to (e_meta env) of
        None \<Rightarrow> False
      | Some a \<Rightarrow> (case segments a of [] \<Rightarrow> False | s # _ \<Rightarrow> is_remote (fe_directory fed) (seg_name s)))"

definition name_or_empty :: "string option \<Rightarrow> string" where
  "name_or_empty n = (case n of Some s \<Rightarrow> s | None \<Rightarrow> [])"

definition sender_name :: "envelope \<Rightarrow> string" where
  "sender_name env = name_or_empty (organism (m_from (e_meta env)))"

definition register_if_needed :: "thread_registry \<Rightarrow> string \<Rightarrow> string \<Rightarrow> string \<Rightarrow> thread_registry" where
  "register_if_needed threads tid initiator tgt =
     (if thread_lookup threads tid = None then snd (register_thread threads tid initiator tgt) else threads)"

definition route_msg ::
    "'s listener_registry \<Rightarrow> federation_egress option \<Rightarrow> thread_registry \<Rightarrow> validated_msg
     \<Rightarrow> route_outcome \<times> thread_registry" where
  "route_msg reg federation threads msg =
     (let env = vm_envelope msg in
      if (case federation of Some fed \<Rightarrow> remote_to fed env | None \<Rightarrow> False) then (Egress env, threads)
      else
        (let to = Option.bind (m_to (e_meta env)) organism;
             tag = pl_tag (e_payload env);
             from_name = sender_name env
         in case resolve (lr_routing reg) to tag of
              Ok entries \<Rightarrow>
                (let tgt = le_name (entries ! 0) in
                 case enforce_peers (lr_routing reg) from_name tgt of
                   Ok _ \<Rightarrow>
                     (Routed \<lparr>rm_envelope = env, rm_payload = vm_payload msg, rm_target = tgt\<rparr>,
                      register_if_needed threads (m_thread (e_meta env)) from_name tgt)
                 | Err e \<Rightarrow> (Dropped e, threads)
                 | Panic \<Rightarrow> (Dropped (NoRoute []), threads))
            | Err e \<Rightarrow> (Dropped e, threads)
            | Panic \<Rightarrow> (Dropped (NoRoute []), threads)))"

section \<open>Middleware around the handler\<close>

text \<open>
  The payload as transformed so far, and the response of a short circuit or a failing
  middleware; a panicking host call ends the worker (\<open>Panic\<close>).
\<close>

fun pre_chain ::
    "'s middleware list \<Rightarrow> dispatch_meta \<Rightarrow> validated_payload \<Rightarrow> 's
     \<Rightarrow> (validated_payload \<times> handler_result option, unit) result \<times> 's" where
  "pre_chain [] meta p s = (Ok (p, None), s)"
| "pre_chain (mw # mws) meta p s =
     (case mw_pre mw s meta p of
        (Ok Continue, s') \<Rightarrow> pre_chain mws meta p s'
      | (Ok (Transform p'), s') \<Rightarrow> pre_chain mws meta p' s'
      | (Ok (ShortCircuit r), s') \<Rightarrow> (Ok (p, Some (Ok r)), s')
      | (Err e, s') \<Rightarrow> (Ok (p, Some (Err e)), s')
      | (Panic, s') \<Rightarrow> (Panic, s'))"

fun post_chain ::
    "'s middleware list \<Rightarrow> dispatch_meta \<Rightarrow> validated_payload \<Rightarrow> handler_response \<Rightarrow> 's
     \<Rightarrow> handler_result \<times> 's" where
  "post_chain [] meta p r s = (Ok r, s)"
| "post_chain (mw # mws) meta p r s =
     (case mw_post mw s meta p r of
        (Ok (PassThrough r'), s') \<Rightarrow> post_chain mws meta p r' s'
      | (Ok (Replace r'), s') \<Rightarrow> post_chain mws meta p r' s'
      | (Err e, s') \<Rightarrow> (Err (HandlerError (Msg ''middleware post-dispatch error'' [])), s')
      | (Panic, s') \<Rightarrow> (Panic, s'))"

definition dispatch_meta_of :: "routed_msg \<Rightarrow> dispatch_meta" where
  "dispatch_meta_of msg =
     \<lparr>dm_from = sender_name (rm_envelope msg), dm_to = rm_target msg,
      dm_thread_id = m_thread (e_meta (rm_envelope msg)), dm_payload_tag = vp_tag (rm_payload msg)\<rparr>"

definition context_of :: "routed_msg \<Rightarrow> handler_context" where
  "context_of msg =
     (let m = e_meta (rm_envelope msg) in
      \<lparr>hc_thread_id = m_thread m, hc_from = m_from m, hc_own_name = flat (rm_target msg),
       hc_provenance = m_provenance m\<rparr>)"

definition run_handler ::
    "'s dispatch_ctx \<Rightarrow> 's handler_impl \<Rightarrow> routed_msg \<Rightarrow> 's \<Rightarrow> handler_result \<times> 's" where
  "run_handler dx h msg s =
     (let meta = dispatch_meta_of msg in
      case pre_chain (dx_middleware dx) meta (rm_payload msg) s of
        (Panic, s1) \<Rightarrow> (Panic, s1)
      | (Err _, s1) \<Rightarrow> (Panic, s1)
      | (Ok (payload, short_circuited), s1) \<Rightarrow>
          (let (result, s2) =
             (case short_circuited of
                Some r \<Rightarrow> (r, s1)
              | None \<Rightarrow> h_handle h s1 payload (context_of msg))
           in case result of
                Ok response \<Rightarrow> post_chain (rev (dx_middleware dx)) meta payload response s2
              | Err e \<Rightarrow> (Err e, s2)
              | Panic \<Rightarrow> (Panic, s2)))"

section \<open>Responding\<close>

definition envelope_from ::
    "string \<Rightarrow> address \<Rightarrow> string \<Rightarrow> provenance \<Rightarrow> payload \<Rightarrow> envelope" where
  "envelope_from sender to tid prov pl =
     \<lparr>e_meta = \<lparr>m_from = flat sender, m_to = Some to, m_thread = tid, m_provenance = prov\<rparr>, e_payload = pl\<rparr>"

definition on_encoded ::
    "lib \<Rightarrow> envelope \<Rightarrow> (u8 list \<Rightarrow> action list) \<Rightarrow> action list \<Rightarrow> action list" where
  "on_encoded L env f failed = (case encode_envelope L env of Ok raw \<Rightarrow> f raw | Err _ \<Rightarrow> failed | Panic \<Rightarrow> failed)"

definition close_edge :: "'s dispatch_ctx \<Rightarrow> routed_msg \<Rightarrow> action list" where
  "close_edge dx msg = (if dx_observed dx then [AClose (m_thread (e_meta (rm_envelope msg)))] else [])"

definition open_edge :: "'s dispatch_ctx \<Rightarrow> string \<Rightarrow> string \<Rightarrow> string \<Rightarrow> call_kind \<Rightarrow> action list" where
  "open_edge dx caller callee tid kind = (if dx_observed dx then [AOpen caller callee tid kind] else [])"

definition ack_payload :: payload where
  "ack_payload = payload_new ''ToolResponse'' (pv_record [(''success'', Boolean True), (''result'', pv_text ''ack'')])"

definition respond_none ::
    "lib \<Rightarrow> thread_registry \<Rightarrow> string \<Rightarrow> routed_msg \<Rightarrow> thread_registry \<times> action list" where
  "respond_none L threads fresh msg =
     (let m = e_meta (rm_envelope msg) in
      case prune_for_response threads fresh (m_thread m) of
        (Some pr, threads') \<Rightarrow>
          (threads', on_encoded L (envelope_from (rm_target msg) (flat (pr_target pr)) (pr_thread_id pr)
               (m_provenance m) ack_payload) (\<lambda>raw. [ASend raw]) [])
      | (None, threads') \<Rightarrow> (threads', []))"

definition respond_reply ::
    "lib \<Rightarrow> thread_registry \<Rightarrow> string \<Rightarrow> routed_msg \<Rightarrow> payload \<Rightarrow> thread_registry \<times> action list" where
  "respond_reply L threads fresh msg pl =
     (let m = e_meta (rm_envelope msg) in
      case prune_for_response threads fresh (m_thread m) of
        (Some pr, threads') \<Rightarrow>
          (threads', on_encoded L (envelope_from (rm_target msg) (flat (pr_target pr)) (pr_thread_id pr)
               (m_provenance m) pl) (\<lambda>raw. [ASend raw]) [])
      | (None, threads') \<Rightarrow> (threads', []))"

definition spawn_ack :: "bool \<Rightarrow> payload" where
  "spawn_ack accepted = payload_new ''SpawnAck'' (pv_record [(''accepted'', Boolean accepted)])"

definition respond_spawn ::
    "lib \<Rightarrow> 's dispatch_ctx \<Rightarrow> thread_registry \<Rightarrow> string \<Rightarrow> routed_msg \<Rightarrow> address \<Rightarrow> payload
     \<Rightarrow> thread_registry \<times> action list" where
  "respond_spawn L dx threads fresh msg to pl =
     (let m = e_meta (rm_envelope msg);
          to_name = name_or_empty (organism to);
          (threads', handoff, accepted) =
            (case enforce_peers (lr_routing (dx_registry dx)) (rm_target msg) to_name of
               Ok _ \<Rightarrow>
                 (let (obligation, threads1) = extend_chain threads fresh (m_thread m) to_name in
                  case encode_envelope L (envelope_from (rm_target msg) to obligation (m_provenance m) pl) of
                    Ok raw \<Rightarrow> (threads1, ASend raw # open_edge dx (rm_target msg) to_name obligation Async, True)
                  | Err e \<Rightarrow> (threads1, [], False)
                  | Panic \<Rightarrow> (threads1, [], False))
             | Err e \<Rightarrow> (threads, [], False)
             | Panic \<Rightarrow> (threads, [], False))
      in (threads', handoff @
            on_encoded L (envelope_from to_name (flat (rm_target msg)) (m_thread m)
              (m_provenance m) (spawn_ack accepted)) (\<lambda>raw. [ASend raw]) []))"

definition respond_send ::
    "lib \<Rightarrow> 's dispatch_ctx \<Rightarrow> thread_registry \<Rightarrow> string \<Rightarrow> routed_msg \<Rightarrow> address \<Rightarrow> payload
     \<Rightarrow> thread_registry \<times> action list" where
  "respond_send L dx threads fresh msg to pl =
     (let m = e_meta (rm_envelope msg);
          to_name = name_or_empty (organism to)
      in case enforce_peers (lr_routing (dx_registry dx)) (rm_target msg) to_name of
           Err e \<Rightarrow> (threads, [])
         | Panic \<Rightarrow> (threads, [])
         | Ok _ \<Rightarrow>
             (let (new_thread, threads1) = extend_chain threads fresh (m_thread m) to_name
              in (threads1,
                  on_encoded L (envelope_from (rm_target msg) to new_thread (m_provenance m) pl)
                    (\<lambda>raw. ASend raw # open_edge dx (rm_target msg) to_name new_thread Sync) [])))"

text \<open>The part of a response that updates the registry under its lock, and what it sends then.\<close>

fun respond ::
    "lib \<Rightarrow> 's dispatch_ctx \<Rightarrow> thread_registry \<Rightarrow> string \<Rightarrow> routed_msg \<Rightarrow> handler_response
     \<Rightarrow> thread_registry \<times> action list" where
  "respond L dx threads fresh msg HNone = respond_none L threads fresh msg"
| "respond L dx threads fresh msg (HReply pl) = respond_reply L threads fresh msg pl"
| "respond L dx threads fresh msg (HSpawn to pl) = respond_spawn L dx threads fresh msg to pl"
| "respond L dx threads fresh msg (HSend to pl) = respond_send L dx threads fresh msg to pl"

section \<open>One routed message\<close>

text \<open>
  The handler's result for a message; \<open>None\<close> when the target has no handler.  A panic of the
  host's code ends the worker's task.
\<close>

definition handle_message :: "'s dispatch_ctx \<Rightarrow> routed_msg \<Rightarrow> 's \<Rightarrow> handler_result option \<times> 's" where
  "handle_message dx msg s =
     (case get_handler (dx_registry dx) (rm_target msg) of
        None \<Rightarrow> (None, s)
      | Some h \<Rightarrow> (let (result, s') = run_handler dx h msg s in (Some result, s')))"

text \<open>
  What follows the handler: an answer that ends a call is reported before the registry is
  updated for it.
\<close>

fun after_handler :: "'s dispatch_ctx \<Rightarrow> routed_msg \<Rightarrow> handler_result option \<Rightarrow> action list" where
  "after_handler dx msg (Some (Ok HNone)) = close_edge dx msg @ [ARespond msg HNone]"
| "after_handler dx msg (Some (Ok (HReply pl))) = close_edge dx msg @ [ARespond msg (HReply pl)]"
| "after_handler dx msg (Some (Ok r)) = [ARespond msg r]"
| "after_handler dx msg _ = []"

end
