(* ===== verification/Stage_Laws.thy ===== *)
theory Stage_Laws
  imports Pipeline_Stages
begin

text \<open>
  What each stage guarantees of one message: the gates a routed message has passed, the order
  of middleware, what a response sends and on whose behalf, and how the thread registry evolves.
\<close>

section \<open>The gates\<close>

text \<open>What a message that reaches a worker has been checked for.\<close>

definition admissible :: "'s listener_registry \<Rightarrow> routed_msg \<Rightarrow> bool" where
  "admissible reg rm \<longleftrightarrow>
     (let env = rm_envelope rm; pl = e_payload env in
      rm_payload rm = \<lparr>vp_tag = pl_tag pl, vp_value = pl_value pl\<rparr> \<and>
      validate_value (lr_schemas reg) (pl_tag pl) (pl_value pl) = Ok () \<and>
      (\<exists>es. resolve (lr_routing reg) (Option.bind (m_to (e_meta env)) organism) (pl_tag pl) = Ok es \<and>
         rm_target rm = le_name (hd es)) \<and>
      enforce_peers (lr_routing reg) (sender_name env) (rm_target rm) = Ok ())"

lemma validate_msg_Ok:
  "validate_msg reg env = Ok vm \<longleftrightarrow>
     validate_value (lr_schemas reg) (pl_tag (e_payload env)) (pl_value (e_payload env)) = Ok () \<and>
     vm = \<lparr>vm_envelope = env,
       vm_payload = \<lparr>vp_tag = pl_tag (e_payload env), vp_value = pl_value (e_payload env)\<rparr>\<rparr>"
  by (auto simp: validate_msg_def Let_def bindR_eq_Ok)

lemma route_msg_Routed:
  assumes "route_msg reg fed threads vm = (Routed rm, threads')"
  shows "rm_envelope rm = vm_envelope vm" "rm_payload rm = vm_payload vm"
    "\<exists>es. resolve (lr_routing reg) (Option.bind (m_to (e_meta (vm_envelope vm))) organism)
        (pl_tag (e_payload (vm_envelope vm))) = Ok es \<and> rm_target rm = le_name (hd es)"
    "enforce_peers (lr_routing reg) (sender_name (vm_envelope vm)) (rm_target rm) = Ok ()"
    "threads' = register_if_needed threads (m_thread (e_meta (vm_envelope vm)))
       (sender_name (vm_envelope vm)) (rm_target rm)"
  using assms resolve_nonempty
  by (auto simp: route_msg_def Let_def hd_conv_nth split: if_splits result.splits)

lemma route_msg_Egress:
  "route_msg reg fed threads vm = (Egress env, threads') \<Longrightarrow> env = vm_envelope vm \<and> threads' = threads"
  by (auto simp: route_msg_def Let_def split: if_splits result.splits)

lemma route_msg_threads:
  assumes "route_msg reg fed threads vm = (out, threads')"
  shows "threads' = threads \<or> (\<exists>i t. threads' = register_if_needed threads (m_thread (e_meta (vm_envelope vm))) i t)"
  using assms by (auto simp: route_msg_def Let_def split: if_splits result.splits)

lemma route_admissible:
  assumes "validate_msg reg env = Ok vm" "route_msg reg fed threads vm = (Routed rm, threads')"
  shows "admissible reg rm" "rm_envelope rm = env"
  using assms(1) route_msg_Routed [OF assms(2)]
  by (auto simp: admissible_def validate_msg_Ok)

lemma admissible_handler:
  "registry_wf reg \<Longrightarrow> admissible reg rm \<Longrightarrow> \<exists>h. get_handler reg (rm_target rm) = Some h"
  using resolved_has_handler by (fastforce simp: admissible_def Let_def)

section \<open>Middleware\<close>

lemma pre_chain_append:
  "pre_chain (as @ bs) meta p s =
     (case pre_chain as meta p s of
        (Ok (q, None), s') \<Rightarrow> pre_chain bs meta q s'
      | r \<Rightarrow> r)"
  by (induction as meta p s rule: pre_chain.induct)
    (auto split: prod.split result.split pre_verdict.split option.split)

lemma post_chain_append:
  "post_chain (as @ bs) meta p r s =
     (case post_chain as meta p r s of (Ok q, s') \<Rightarrow> post_chain bs meta p q s' | x \<Rightarrow> x)"
  by (induction as meta p r s rule: post_chain.induct)
    (auto split: prod.split result.split post_verdict.split)

lemma noop_chains [simp]:
  "pre_chain (replicate n noop_middleware) meta p s = (Ok (p, None), s)"
  "post_chain (replicate n noop_middleware) meta p r s = (Ok r, s)"
  by (induction n) (simp_all add: noop_middleware_def)

text \<open>
  The handler wrapped in the middleware list, when every middleware lets the message pass:
  registration order before the handler, reverse order after it.
\<close>

lemma run_handler_pass:
  assumes "pre_chain (dx_middleware dx) (dispatch_meta_of msg) (rm_payload msg) s = (Ok (p, None), s1)"
    and "h_handle h s1 p (context_of msg) = (Ok r, s2)"
  shows "run_handler dx h msg s = post_chain (rev (dx_middleware dx)) (dispatch_meta_of msg) p r s2"
  using assms by (simp add: run_handler_def Let_def)

text \<open>A short circuit skips the handler and the later pre-dispatch calls, not the post chain.\<close>

lemma run_handler_short:
  assumes "dx_middleware dx = before @ mw # after"
    and "pre_chain before (dispatch_meta_of msg) (rm_payload msg) s = (Ok (p, None), s1)"
    and "mw_pre mw s1 (dispatch_meta_of msg) p = (Ok (ShortCircuit r), s2)"
  shows "run_handler dx h msg s = post_chain (rev (dx_middleware dx)) (dispatch_meta_of msg) p r s2"
  using assms by (simp add: run_handler_def Let_def pre_chain_append)

text \<open>A short circuit keeps the post chain of all middleware; an error before the dispatch drops it.\<close>

lemma middleware_short_circuit:
  assumes "dx_middleware dx = before @ mw # after"
    and "pre_chain before (dispatch_meta_of msg) (rm_payload msg) s = (Ok (p, None), s1)"
    and "mw_pre mw s1 (dispatch_meta_of msg) p = (v, s2)"
  shows "(\<forall>r. v = Ok (ShortCircuit r) \<longrightarrow>
      run_handler dx h msg s = post_chain (rev after @ [mw] @ rev before) (dispatch_meta_of msg) p r s2) \<and>
    (\<forall>e. v = Err e \<longrightarrow> run_handler dx h msg s = (Err e, s2))"
  using assms run_handler_short [OF assms(1,2), of r s2 h for r]
  by (auto simp: run_handler_def Let_def pre_chain_append)

lemma run_handler_error:
  assumes "pre_chain (dx_middleware dx) (dispatch_meta_of msg) (rm_payload msg) s = (Ok (p, None), s1)"
    and "h_handle h s1 p (context_of msg) = (Err e, s2)"
  shows "run_handler dx h msg s = (Err e, s2)"
  using assms by (simp add: run_handler_def Let_def)

section \<open>What a response sends\<close>

fun sends :: "action list \<Rightarrow> u8 list list" where
  "sends [] = []"
| "sends (ASend raw # as) = raw # sends as"
| "sends (_ # as) = sends as"

lemma sends_append [simp]: "sends (as @ bs) = sends as @ sends bs"
  by (induction as rule: sends.induct) simp_all

lemma sends_edges [simp]: "sends (close_edge dx msg) = []" "sends (open_edge dx a b t k) = []"
  by (simp_all add: close_edge_def open_edge_def)

lemma on_encoded_laws [simp]:
  "xml_laws L \<Longrightarrow> on_encoded L env f failed = f (bytes_of L (envelope_events L env))"
  by (simp add: on_encoded_def encode_envelope_bytes)

text \<open>The envelopes a response stands for, in the order they are sent.\<close>

abbreviation thread_of :: "routed_msg \<Rightarrow> string" where
  "thread_of msg \<equiv> m_thread (e_meta (rm_envelope msg))"

abbreviation prov_of :: "routed_msg \<Rightarrow> provenance" where
  "prov_of msg \<equiv> m_provenance (e_meta (rm_envelope msg))"

definition answer_to ::
    "prune_result option \<Rightarrow> routed_msg \<Rightarrow> payload \<Rightarrow> envelope list" where
  "answer_to pr msg pl =
     (case pr of None \<Rightarrow> []
      | Some p \<Rightarrow> [envelope_from (rm_target msg) (flat (pr_target p)) (pr_thread_id p) (prov_of msg) pl])"

fun response_envelopes ::
    "'s dispatch_ctx \<Rightarrow> thread_registry \<Rightarrow> string \<Rightarrow> routed_msg \<Rightarrow> handler_response \<Rightarrow> envelope list" where
  "response_envelopes dx threads fresh msg HNone =
     answer_to (fst (prune_for_response threads fresh (thread_of msg))) msg ack_payload"
| "response_envelopes dx threads fresh msg (HReply pl) =
     answer_to (fst (prune_for_response threads fresh (thread_of msg))) msg pl"
| "response_envelopes dx threads fresh msg (HSend to pl) =
     (if enforce_peers (lr_routing (dx_registry dx)) (rm_target msg) (name_or_empty (organism to)) = Ok ()
      then [envelope_from (rm_target msg) to
              (fst (extend_chain threads fresh (thread_of msg) (name_or_empty (organism to)))) (prov_of msg) pl]
      else [])"
| "response_envelopes dx threads fresh msg (HSpawn to pl) =
     (let to_name = name_or_empty (organism to);
          ok = enforce_peers (lr_routing (dx_registry dx)) (rm_target msg) to_name = Ok () in
      (if ok then [envelope_from (rm_target msg) to
                     (fst (extend_chain threads fresh (thread_of msg) to_name)) (prov_of msg) pl] else []) @
      [envelope_from to_name (flat (rm_target msg)) (thread_of msg) (prov_of msg) (spawn_ack ok)])"

fun response_threads ::
    "'s dispatch_ctx \<Rightarrow> thread_registry \<Rightarrow> string \<Rightarrow> routed_msg \<Rightarrow> handler_response \<Rightarrow> thread_registry" where
  "response_threads dx threads fresh msg HNone = snd (prune_for_response threads fresh (thread_of msg))"
| "response_threads dx threads fresh msg (HReply pl) = snd (prune_for_response threads fresh (thread_of msg))"
| "response_threads dx threads fresh msg (HSend to pl) =
     (if enforce_peers (lr_routing (dx_registry dx)) (rm_target msg) (name_or_empty (organism to)) = Ok ()
      then snd (extend_chain threads fresh (thread_of msg) (name_or_empty (organism to))) else threads)"
| "response_threads dx threads fresh msg (HSpawn to pl) =
     (if enforce_peers (lr_routing (dx_registry dx)) (rm_target msg) (name_or_empty (organism to)) = Ok ()
      then snd (extend_chain threads fresh (thread_of msg) (name_or_empty (organism to))) else threads)"

lemma respond_threads:
  assumes "respond L dx threads fresh msg r = (threads', acts)"
  shows "threads' = response_threads dx threads fresh msg r"
  using assms
  by (cases r)
    (auto simp: respond_send_def respond_spawn_def respond_reply_def respond_none_def Let_def
      split: prod.splits option.splits result.splits)

lemma respond_sends:
  assumes "xml_laws L" "respond L dx threads fresh msg r = (threads', acts)"
  shows "sends acts = map (\<lambda>env. bytes_of L (envelope_events L env)) (response_envelopes dx threads fresh msg r)"
proof (cases r)
  case (HSend to pl)
  with assms show ?thesis
    by (auto simp: respond_send_def Let_def split: prod.splits result.splits)
next
  case (HSpawn to pl)
  with assms show ?thesis
    by (auto simp: respond_spawn_def Let_def encode_envelope_bytes split: prod.splits result.splits)
next
  case (HReply pl)
  with assms show ?thesis
    by (auto simp: respond_reply_def Let_def answer_to_def split: prod.splits option.splits)
next
  case HNone
  with assms show ?thesis
    by (auto simp: respond_none_def Let_def answer_to_def split: prod.splits option.splits)
qed

text \<open>A response sends and reports; it neither runs a handler nor responds again.\<close>

fun is_output :: "action \<Rightarrow> bool" where
  "is_output (ARun m) = False"
| "is_output (ARespond m r) = False"
| "is_output _ = True"

lemma outputs_edges [simp]: "list_all is_output (close_edge dx msg)" "list_all is_output (open_edge dx a b t k)"
  by (simp_all add: close_edge_def open_edge_def)

lemma respond_outputs:
  assumes "respond L dx threads fresh msg r = (threads', acts)"
  shows "list_all is_output acts" "length acts \<le> 3"
  using assms
  by (cases r; auto simp: respond_none_def respond_reply_def respond_spawn_def respond_send_def on_encoded_def
      open_edge_def Let_def split: option.splits prod.splits result.splits if_splits)+

lemma after_handler_parts:
  "after_handler dx msg result =
     (case result of
        Some (Ok r) \<Rightarrow> (if r = HNone \<or> (\<exists>pl. r = HReply pl) then close_edge dx msg else []) @ [ARespond msg r]
      | _ \<Rightarrow> [])"
  by (cases "(dx, msg, result)" rule: after_handler.cases) simp_all

lemma response_provenance:
  "env \<in> set (response_envelopes dx threads fresh msg r) \<Longrightarrow> m_provenance (e_meta env) = prov_of msg"
  by (cases r) (auto simp: answer_to_def envelope_from_def Let_def split: option.splits if_splits)

lemma response_from:
  assumes "env \<in> set (response_envelopes dx threads fresh msg r)"
  shows "m_from (e_meta env) = flat (rm_target msg) \<or>
    (\<exists>to pl ok. r = HSpawn to pl \<and> m_from (e_meta env) = flat (name_or_empty (organism to)) \<and>
       m_to (e_meta env) = Some (flat (rm_target msg)) \<and> e_payload env = spawn_ack ok)"
  using assms
  by (cases r) (auto simp: answer_to_def envelope_from_def Let_def split: option.splits if_splits)

lemma response_count: "length (response_envelopes dx threads fresh msg r) \<le> 2"
  by (cases r) (auto simp: answer_to_def Let_def split: option.splits)

end
