(* ===== verification/Call_Laws.thy ===== *)
theory Call_Laws
  imports Stage_Laws
begin

text \<open>
  How the thread registry evolves under the pipeline's traffic, and what that means for calls:
  a call's thread keeps its chain for as long as the pipeline runs, so the reply, whenever it
  comes, goes back to the caller's listener on the caller's own thread.
\<close>

section \<open>Evolution of the registry\<close>

inductive evolves ::
    "lib \<Rightarrow> 's dispatch_ctx \<Rightarrow> federation_egress option \<Rightarrow> thread_registry \<Rightarrow> thread_registry \<Rightarrow> bool"
  for L :: lib and dx :: "'s dispatch_ctx" and fed :: "federation_egress option" and r :: thread_registry
where
  stay: "evolves L dx fed r r"
| routed: "evolves L dx fed r r' \<Longrightarrow> route_msg (dx_registry dx) fed r' vm = (out, r'') \<Longrightarrow>
    evolves L dx fed r r''"
| responded: "evolves L dx fed r r' \<Longrightarrow> uuid_to_chain r' fresh = None \<Longrightarrow>
    respond L dx r' fresh msg resp = (r'', acts) \<Longrightarrow> evolves L dx fed r r''"

text \<open>A chain with a hop is a call in progress.\<close>

definition keeps_calls :: "thread_registry \<Rightarrow> thread_registry \<Rightarrow> bool" where
  "keeps_calls r r' \<longleftrightarrow>
     (\<forall>t c. uuid_to_chain r t = Some c \<longrightarrow> CHR ''.'' \<in> set c \<longrightarrow> uuid_to_chain r' t = Some c)"

lemma keeps_calls_refl [simp]: "keeps_calls r r"
  by (simp add: keeps_calls_def)

lemma keeps_calls_trans: "keeps_calls r r' \<Longrightarrow> keeps_calls r' r'' \<Longrightarrow> keeps_calls r r''"
  by (simp add: keeps_calls_def)

lemma keeps_calls_get: "uuid_to_chain r f = None \<Longrightarrow> keeps_calls r (snd (get_or_create r f c))"
  by (auto simp: keeps_calls_def get_or_create_def split: option.splits)

lemma keeps_calls_register: "keeps_calls r (register_if_needed r tid i t)"
  by (auto simp: keeps_calls_def register_if_needed_def register_thread_def thread_lookup_def Let_def
      split: option.splits)

lemma keeps_calls_extend: "uuid_to_chain r f = None \<Longrightarrow> keeps_calls r (snd (extend_chain r f tid hop))"
  by (simp add: extend_chain_alt keeps_calls_get)

lemma keeps_calls_prune:
  assumes "uuid_to_chain r f = None"
  shows "keeps_calls r (snd (prune_for_response r f tid))"
proof (cases "uuid_to_chain r tid")
  case None
  then show ?thesis by (simp add: prune_unknown)
next
  case (Some c)
  then show ?thesis
  proof (cases c rule: chain_cases)
    case single
    with Some show ?thesis
      by (auto simp: prune_exhausted cleanup_def keeps_calls_def)
  next
    case (hop d h)
    with Some show ?thesis
      using keeps_calls_get [OF assms, of d] by (auto simp: prune_alt split: prod.splits)
  qed
qed

lemma response_threads_evolution:
  assumes "uuid_to_chain r f = None"
  shows "keeps_calls r (response_threads dx r f msg resp) \<and>
    (threads_inv r \<longrightarrow> threads_inv (response_threads dx r f msg resp))"
  using assms by (cases resp) (simp_all add: keeps_calls_prune keeps_calls_extend prune_inv extend_chain_inv)

lemma response_evolution:
  assumes "uuid_to_chain r f = None" "respond L dx r f msg resp = (r', acts)"
  shows "keeps_calls r r' \<and> (threads_inv r \<longrightarrow> threads_inv r')"
  unfolding respond_threads [OF assms(2)] by (rule response_threads_evolution [OF assms(1)])

lemma route_evolution:
  assumes "route_msg reg fed r vm = (out, r')"
  shows "keeps_calls r r'" "threads_inv r \<Longrightarrow> threads_inv r'"
  using route_msg_threads [OF assms] keeps_calls_register
  by (auto, auto simp: register_if_needed_def register_thread_inv)

lemma evolves_keeps: "evolves L dx fed r r' \<Longrightarrow> threads_inv r \<Longrightarrow> threads_inv r' \<and> keeps_calls r r'"
proof (induction rule: evolves.induct)
  case stay
  then show ?case by simp
next
  case (routed r' vm out r'')
  then show ?case
    using route_evolution [OF routed.hyps(2)] keeps_calls_trans by blast
next
  case (responded r' fresh msg resp r'' acts)
  then show ?case
    using response_evolution [OF responded.hyps(2,3)] keeps_calls_trans by blast
qed

section \<open>Calls and replies\<close>

text \<open>The thread a call opens, and what a reply on it does at any later time.\<close>

lemma call_thread_bound:
  assumes "threads_inv r" "uuid_to_chain r f = None" "uuid_to_chain r t = Some c" "c \<noteq> []"
    and "extend_chain r f t hop = (u, r')"
  shows "uuid_to_chain r' u = Some (c @ CHR ''.'' # hop)" "uuid_to_chain r' t = Some c"
proof -
  have ext: "get_or_create r f (c @ CHR ''.'' # hop) = (u, r')"
    using assms by (simp add: extend_chain_alt chain_below_def)
  from threads.ensure_lookup [OF assms(1), of f "c @ CHR ''.'' # hop"] assms(2) ext
  show "uuid_to_chain r' u = Some (c @ CHR ''.'' # hop)"
    by (simp add: thread_lookup_def)
  from threads.ensure_keeps [OF assms(1), of f t c "c @ CHR ''.'' # hop"] assms(2,3) ext
  show "uuid_to_chain r' t = Some c"
    by (simp add: thread_lookup_def)
qed

lemma late_prune:
  assumes "threads_inv r" "uuid_to_chain r f = None"
    and "uuid_to_chain r t = Some c" "CHR ''.'' \<in> set c" "CHR ''.'' \<notin> set hop"
    and "extend_chain r f t hop = (u, r1)" and "evolves L dx fed r1 r2"
  shows "prune_for_response r2 g u =
    (Some \<lparr>pr_target = last (split_on CHR ''.'' c), pr_thread_id = t\<rparr>, r2)"
proof -
  have "c \<noteq> []" using assms(4) by auto
  note bound = call_thread_bound [OF assms(1-3) this assms(6)]
  have "threads_inv r1"
    using extend_chain_inv [OF assms(1,2), of t hop] assms(6) by simp
  from evolves_keeps [OF assms(7) this]
  have inv: "threads_inv r2" and keeps: "keeps_calls r1 r2" by auto
  have u: "uuid_to_chain r2 u = Some (c @ CHR ''.'' # hop)"
    using keeps bound(1) by (simp add: keeps_calls_def)
  have t: "uuid_to_chain r2 t = Some c"
    using keeps bound(2) assms(4) by (simp add: keeps_calls_def)
  have "get_or_create r2 g c = (t, r2)"
    using threads.ensure_known [OF inv, of t c g] t by (simp add: thread_lookup_def)
  with u assms(5) show ?thesis
    by (simp add: prune_alt)
qed

lemma call_reply:
  assumes "threads_inv r" "uuid_to_chain r f = None"
    and "uuid_to_chain r (thread_of msg) = Some c" "CHR ''.'' \<in> set c"
    and "organism to = Some hop" "CHR ''.'' \<notin> set hop"
    and "enforce_peers (lr_routing (dx_registry dx)) (rm_target msg) hop = Ok ()"
    and "evolves L dx fed (response_threads dx r f msg (HSend to pl)) r2"
    and "thread_of msg' = m_thread (e_meta (hd (response_envelopes dx r f msg (HSend to pl))))"
  shows "response_envelopes dx r2 g msg' (HReply pl') =
      [envelope_from (rm_target msg') (flat (last (split_on CHR ''.'' c))) (thread_of msg) (prov_of msg') pl']"
    and "response_threads dx r2 g msg' (HReply pl') = r2"
proof -
  obtain u r1 where ext: "extend_chain r f (thread_of msg) hop = (u, r1)"
    by (cases "extend_chain r f (thread_of msg) hop")
  have "evolves L dx fed r1 r2" and "thread_of msg' = u"
    using assms(5,7,8,9) ext by (simp_all add: name_or_empty_def envelope_from_def)
  with late_prune [OF assms(1-4,6) ext, of L dx fed r2 g]
  show "response_envelopes dx r2 g msg' (HReply pl') =
      [envelope_from (rm_target msg') (flat (last (split_on CHR ''.'' c))) (thread_of msg) (prov_of msg') pl']"
    "response_threads dx r2 g msg' (HReply pl') = r2"
    by (simp_all add: answer_to_def)
qed

section \<open>Threads of routed messages\<close>

text \<open>
  Routing leaves the message's thread bound, unless its chain already belongs to another
  thread: then the registry is unchanged and the thread stays unknown.
\<close>

lemma route_binds:
  assumes "route_msg reg fed threads vm = (Routed rm, threads')"
    and "chain = (if root_uuid threads \<noteq> None
        then root_chain threads @ ''.'' @ sender_name (vm_envelope vm) @ ''.'' @ rm_target rm
        else sender_name (vm_envelope vm) @ ''.'' @ rm_target rm)"
  shows "uuid_to_chain threads' (thread_of rm) =
    (case uuid_to_chain threads (thread_of rm) of
       Some c \<Rightarrow> Some c
     | None \<Rightarrow> if chain_to_uuid threads chain = None then Some chain else None)"
  using route_msg_Routed(1,5) [OF assms(1)]
  by (auto simp: register_if_needed_def thread_lookup_def register_thread_def Let_def assms(2)
      split: option.splits)

text \<open>A response on an unknown thread sends nothing.\<close>

lemma unknown_thread_silent:
  "uuid_to_chain threads (thread_of msg) = None \<Longrightarrow>
   response_envelopes dx threads f msg HNone = [] \<and> response_envelopes dx threads f msg (HReply pl) = []"
  by (simp add: prune_unknown answer_to_def)

end
