(* ===== verification/Workers.thy ===== *)
theory Workers
  imports Rust_Prelude "HOL-Library.Multiset" "HOL-Library.Sublist"
begin

text \<open>
  \<open>src/pipeline.rs\<close>, \<open>dispatch_stage\<close> and \<open>serial_worker\<close>: one serial worker per delivery
  thread.  A channel and the task that receives from it share an id; the channel is closed when
  its task is gone.  \<open>wmap\<close> is the \<open>WorkerMap\<close> (thread id to sender).  Each definition below is
  what the code does while it holds the map's lock, or one receive of a worker's loop.

  \<open>fo_in\<close>, \<open>fo_started\<close> and \<open>fo_lost\<close> are history: the messages handed over, taken up by a worker,
  and dropped with the queue of a worker that died.
\<close>

section \<open>State\<close>

datatype 'a worker_state = Waiting | TimedOut | Busy "'a list"

record ('m, 'a) worker =
  wk_key :: string
  wk_queue :: "'m list"
  wk_state :: "'a worker_state"

record ('m, 'a) fan_out =
  wmap :: "string \<rightharpoonup> nat"
  tasks :: "nat \<rightharpoonup> ('m, 'a) worker"
  next_task :: nat
  fo_in :: "(string \<times> 'm) list"
  fo_started :: "(string \<times> 'm) list"
  fo_lost :: "(string \<times> 'm) list"

definition fan_new :: "('m, 'a) fan_out" where
  "fan_new = \<lparr>wmap = Map.empty, tasks = Map.empty, next_task = 0, fo_in = [], fo_started = [], fo_lost = []\<rparr>"

section \<open>Operations\<close>

definition spawn_worker :: "string \<Rightarrow> ('m, 'a) fan_out \<Rightarrow> nat \<times> ('m, 'a) fan_out" where
  "spawn_worker key f =
     (next_task f,
      f\<lparr>tasks := (tasks f)(next_task f \<mapsto> \<lparr>wk_key = key, wk_queue = [], wk_state = Waiting\<rparr>),
        wmap := (wmap f)(key \<mapsto> next_task f), next_task := next_task f + 1\<rparr>)"

text \<open>\<open>tx.send\<close> on an unbounded channel: the message is given back when the task is gone.\<close>

definition channel_send :: "nat \<Rightarrow> 'm \<Rightarrow> ('m, 'a) fan_out \<Rightarrow> ('m, 'a) fan_out option" where
  "channel_send i m f =
     (case tasks f i of
        None \<Rightarrow> None
      | Some w \<Rightarrow> Some (f\<lparr>tasks := (tasks f)(i \<mapsto> w\<lparr>wk_queue := wk_queue w @ [m]\<rparr>)\<rparr>))"

text \<open>The retry loop of the dispatch stage.\<close>

function handoff :: "string \<Rightarrow> 'm \<Rightarrow> ('m, 'a) fan_out \<Rightarrow> ('m, 'a) fan_out" where
  "handoff key m f =
     (let (i, f1) = (case wmap f key of Some i \<Rightarrow> (i, f) | None \<Rightarrow> spawn_worker key f)
      in case channel_send i m f1 of
           Some f2 \<Rightarrow> f2\<lparr>fo_in := fo_in f2 @ [(key, m)]\<rparr>
         | None \<Rightarrow> handoff key m (f1\<lparr>wmap := (wmap f1)(key := None)\<rparr>))"
  by pat_completeness auto
termination
  by (relation "measure (\<lambda>(key, m, f). if wmap f key = None then 0 else 1)")
    (auto simp: spawn_worker_def channel_send_def split: option.splits)

declare handoff.simps [simp del]

text \<open>A receive: of a waiting worker, or the re-check under the lock after the idle timeout.\<close>

definition take_message :: "nat \<Rightarrow> ('m, 'a) fan_out \<Rightarrow> ('m \<times> ('m, 'a) fan_out) option" where
  "take_message i f =
     (case tasks f i of
        None \<Rightarrow> None
      | Some w \<Rightarrow>
          (case (wk_state w, wk_queue w) of
             (Busy _, _) \<Rightarrow> None
           | (_, []) \<Rightarrow> None
           | (_, m # q) \<Rightarrow>
               Some (m, f\<lparr>tasks := (tasks f)(i \<mapsto> w\<lparr>wk_queue := q, wk_state := Busy []\<rparr>),
                          fo_started := fo_started f @ [(wk_key w, m)]\<rparr>)))"

definition set_actions :: "nat \<Rightarrow> 'a list \<Rightarrow> ('m, 'a) fan_out \<Rightarrow> ('m, 'a) fan_out" where
  "set_actions i as f =
     (case tasks f i of
        None \<Rightarrow> f
      | Some w \<Rightarrow> f\<lparr>tasks := (tasks f)(i \<mapsto> w\<lparr>wk_state := Busy as\<rparr>)\<rparr>)"

text \<open>The next action of a busy worker; without one it goes back to its receive.\<close>

definition next_action :: "nat \<Rightarrow> ('m, 'a) fan_out \<Rightarrow> ('a option \<times> ('m, 'a) fan_out) option" where
  "next_action i f =
     (case tasks f i of
        None \<Rightarrow> None
      | Some w \<Rightarrow>
          (case wk_state w of
             Busy (a # as) \<Rightarrow> Some (Some a, f\<lparr>tasks := (tasks f)(i \<mapsto> w\<lparr>wk_state := Busy as\<rparr>)\<rparr>)
           | Busy [] \<Rightarrow> Some (None, f\<lparr>tasks := (tasks f)(i \<mapsto> w\<lparr>wk_state := Waiting\<rparr>)\<rparr>)
           | _ \<Rightarrow> None))"

definition idle_timeout :: "nat \<Rightarrow> ('m, 'a) fan_out \<Rightarrow> ('m, 'a) fan_out option" where
  "idle_timeout i f =
     (case tasks f i of
        None \<Rightarrow> None
      | Some w \<Rightarrow>
          if wk_state w = Waiting
          then Some (f\<lparr>tasks := (tasks f)(i \<mapsto> w\<lparr>wk_state := TimedOut\<rparr>)\<rparr>) else None)"

definition reap :: "nat \<Rightarrow> ('m, 'a) fan_out \<Rightarrow> ('m, 'a) fan_out option" where
  "reap i f =
     (case tasks f i of
        None \<Rightarrow> None
      | Some w \<Rightarrow>
          if wk_state w = TimedOut \<and> wk_queue w = []
          then Some (f\<lparr>wmap := (wmap f)(wk_key w := None), tasks := (tasks f)(i := None)\<rparr>) else None)"

text \<open>A panic ends the task; its receiver, and what is queued in it, is dropped.\<close>

definition worker_dies :: "nat \<Rightarrow> ('m, 'a) fan_out \<Rightarrow> ('m, 'a) fan_out" where
  "worker_dies i f =
     (case tasks f i of
        None \<Rightarrow> f
      | Some w \<Rightarrow> f\<lparr>tasks := (tasks f)(i := None), fo_lost := fo_lost f @ map (Pair (wk_key w)) (wk_queue w)\<rparr>)"

inductive fan_step :: "('m, 'a) fan_out \<Rightarrow> ('m, 'a) fan_out \<Rightarrow> bool" where
  "fan_step f (handoff key m f)"
| "take_message i f = Some (m, f') \<Longrightarrow> fan_step f f'"
| "fan_step f (set_actions i as f)"
| "next_action i f = Some (a, f') \<Longrightarrow> fan_step f f'"
| "idle_timeout i f = Some f' \<Longrightarrow> fan_step f f'"
| "reap i f = Some f' \<Longrightarrow> fan_step f f'"
| "fan_step f (worker_dies i f)"

section \<open>One live worker per thread\<close>

definition fan_inv :: "('m, 'a) fan_out \<Rightarrow> bool" where
  "fan_inv f \<longleftrightarrow>
     (\<forall>i w. tasks f i = Some w \<longrightarrow> i < next_task f \<and> wmap f (wk_key w) = Some i) \<and>
     (\<forall>k i. wmap f k = Some i \<longrightarrow> i < next_task f \<and> (\<forall>w. tasks f i = Some w \<longrightarrow> wk_key w = k))"

lemma fan_inv_new [simp]: "fan_inv fan_new"
  by (simp add: fan_inv_def fan_new_def)

lemma fan_inv_unique:
  "fan_inv f \<Longrightarrow> tasks f i = Some v \<Longrightarrow> tasks f j = Some w \<Longrightarrow> wk_key v = wk_key w \<Longrightarrow> i = j"
  unfolding fan_inv_def by (metis option.inject)

text \<open>What a hand-over does in each of its three cases.\<close>

lemma handoff_live:
  assumes "wmap f key = Some i" "tasks f i = Some w"
  shows "handoff key m f = f\<lparr>tasks := (tasks f)(i \<mapsto> w\<lparr>wk_queue := wk_queue w @ [m]\<rparr>),
    fo_in := fo_in f @ [(key, m)]\<rparr>"
  using assms by (simp add: handoff.simps [of key m f] channel_send_def)

lemma handoff_none:
  assumes "wmap f key = None"
  shows "handoff key m f = f\<lparr>tasks := (tasks f)(next_task f \<mapsto> \<lparr>wk_key = key, wk_queue = [m], wk_state = Waiting\<rparr>),
    wmap := (wmap f)(key \<mapsto> next_task f), next_task := next_task f + 1, fo_in := fo_in f @ [(key, m)]\<rparr>"
  using assms by (simp add: handoff.simps [of key m f] channel_send_def spawn_worker_def)

lemma handoff_stale:
  assumes "wmap f key = Some i" "tasks f i = None"
  shows "handoff key m f = f\<lparr>tasks := (tasks f)(next_task f \<mapsto> \<lparr>wk_key = key, wk_queue = [m], wk_state = Waiting\<rparr>),
    wmap := (wmap f)(key \<mapsto> next_task f), next_task := next_task f + 1, fo_in := fo_in f @ [(key, m)]\<rparr>"
  using assms handoff_none [of "f\<lparr>wmap := (wmap f)(key := None)\<rparr>" key m]
  by (simp add: handoff.simps [of key m f] channel_send_def)

lemma handoff_cases:
  obtains (live) i w where "wmap f key = Some i" "tasks f i = Some w"
      "handoff key m f = f\<lparr>tasks := (tasks f)(i \<mapsto> w\<lparr>wk_queue := wk_queue w @ [m]\<rparr>),
        fo_in := fo_in f @ [(key, m)]\<rparr>"
    | (fresh) "\<And>i. wmap f key = Some i \<Longrightarrow> tasks f i = None"
      "handoff key m f = f\<lparr>tasks := (tasks f)(next_task f \<mapsto> \<lparr>wk_key = key, wk_queue = [m], wk_state = Waiting\<rparr>),
        wmap := (wmap f)(key \<mapsto> next_task f), next_task := next_task f + 1, fo_in := fo_in f @ [(key, m)]\<rparr>"
  using handoff_live handoff_none handoff_stale by (metis option.exhaust)

lemma take_message_Some:
  "take_message i f = Some (m, f') \<longleftrightarrow>
     (\<exists>w q. tasks f i = Some w \<and> (wk_state w = Waiting \<or> wk_state w = TimedOut) \<and> wk_queue w = m # q \<and>
        f' = f\<lparr>tasks := (tasks f)(i \<mapsto> w\<lparr>wk_queue := q, wk_state := Busy []\<rparr>),
               fo_started := fo_started f @ [(wk_key w, m)]\<rparr>)"
  by (auto simp: take_message_def split: option.splits worker_state.splits list.splits)

lemma next_action_Some:
  "next_action i f = Some (a, f') \<longleftrightarrow>
     (\<exists>w st. tasks f i = Some w \<and> f' = f\<lparr>tasks := (tasks f)(i \<mapsto> w\<lparr>wk_state := st\<rparr>)\<rparr> \<and>
        (case a of Some x \<Rightarrow> \<exists>as. wk_state w = Busy (x # as) \<and> st = Busy as
         | None \<Rightarrow> wk_state w = Busy [] \<and> st = Waiting))"
  by (auto simp: next_action_def split: option.splits worker_state.splits list.splits)

lemma idle_timeout_Some:
  "idle_timeout i f = Some f' \<longleftrightarrow>
     (\<exists>w. tasks f i = Some w \<and> wk_state w = Waiting \<and>
        f' = f\<lparr>tasks := (tasks f)(i \<mapsto> w\<lparr>wk_state := TimedOut\<rparr>)\<rparr>)"
  by (auto simp: idle_timeout_def split: option.splits if_splits)

lemma reap_Some:
  "reap i f = Some f' \<longleftrightarrow>
     (\<exists>w. tasks f i = Some w \<and> wk_state w = TimedOut \<and> wk_queue w = [] \<and>
        f' = f\<lparr>wmap := (wmap f)(wk_key w := None), tasks := (tasks f)(i := None)\<rparr>)"
  by (auto simp: reap_def split: option.splits if_splits)

lemmas worker_ops = take_message_Some next_action_Some idle_timeout_Some reap_Some

lemma fan_inv_update:
  assumes "fan_inv f" "tasks f i = Some w" "wk_key w' = wk_key w"
  shows "fan_inv (f\<lparr>tasks := (tasks f)(i \<mapsto> w')\<rparr>)"
  using assms by (auto simp: fan_inv_def)

lemma fan_inv_history [simp]:
  "fan_inv (f\<lparr>fo_in := x\<rparr>) = fan_inv f" "fan_inv (f\<lparr>fo_started := y\<rparr>) = fan_inv f"
  "fan_inv (f\<lparr>fo_lost := z\<rparr>) = fan_inv f"
  by (simp_all add: fan_inv_def)

lemma fan_inv_handoff: "fan_inv f \<Longrightarrow> fan_inv (handoff key m f)"
proof (cases rule: handoff_cases [where f = f and key = key and m = m])
  case (live i w)
  assume "fan_inv f"
  then have "fan_inv (f\<lparr>tasks := (tasks f)(i \<mapsto> w\<lparr>wk_queue := wk_queue w @ [m]\<rparr>)\<rparr>)"
    by (rule fan_inv_update [OF _ live(2)]) simp
  with live(3) show ?thesis
    using fan_inv_history(1) by (simp add: fan_inv_def)
next
  case fresh
  assume inv: "fan_inv f"
  have "wk_key w \<noteq> key" if "tasks f i = Some w" for i w
    using fresh(1) [of i] inv that by (auto simp: fan_inv_def)
  with inv show ?thesis
    unfolding fresh(2) by (auto simp: fan_inv_def less_Suc_eq)
qed

lemma fan_inv_step: "fan_step f f' \<Longrightarrow> fan_inv f \<Longrightarrow> fan_inv f'"
proof (induction rule: fan_step.induct)
  case (1 f key m)
  then show ?case by (rule fan_inv_handoff)
next
  case (2 i f m f')
  then obtain w q where "tasks f i = Some w"
    "f' = f\<lparr>tasks := (tasks f)(i \<mapsto> w\<lparr>wk_queue := q, wk_state := Busy []\<rparr>)\<rparr>\<lparr>fo_started := fo_started f @ [(wk_key w, m)]\<rparr>"
    by (auto simp: take_message_Some)
  with 2 show ?case by (simp add: fan_inv_update)
next
  case (3 f i as)
  then show ?case
    by (auto simp: set_actions_def fan_inv_update split: option.splits)
next
  case (4 i f a f')
  then show ?case
    by (auto simp: next_action_Some fan_inv_update)
next
  case (5 i f f')
  then show ?case
    by (auto simp: idle_timeout_Some fan_inv_update)
next
  case (6 i f f')
  then obtain w where "tasks f i = Some w"
    and f': "f' = f\<lparr>wmap := (wmap f)(wk_key w := None), tasks := (tasks f)(i := None)\<rparr>"
    by (auto simp: reap_Some)
  moreover have "wk_key v \<noteq> wk_key w" if "tasks f j = Some v" "j \<noteq> i" for j v
    using fan_inv_unique [OF 6(2) that(1) \<open>tasks f i = Some w\<close>] that(2) by blast
  ultimately show ?case
    using 6(2) by (auto simp: fan_inv_def)
next
  case (7 f i)
  then show ?case
    by (auto simp: worker_dies_def fan_inv_def split: option.splits)
qed

section \<open>Order, and no loss\<close>

definition for_key :: "string \<Rightarrow> (string \<times> 'm) list \<Rightarrow> 'm list" where
  "for_key k xs = map snd (filter (\<lambda>x. fst x = k) xs)"

definition queue_of :: "('m, 'a) fan_out \<Rightarrow> string \<Rightarrow> 'm list" where
  "queue_of f k = (case wmap f k of None \<Rightarrow> [] | Some i \<Rightarrow> (case tasks f i of None \<Rightarrow> [] | Some w \<Rightarrow> wk_queue w))"

lemma for_key_append [simp]: "for_key k (xs @ ys) = for_key k xs @ for_key k ys"
  by (simp add: for_key_def)

lemma for_key_one [simp]: "for_key k [] = []" "for_key k [(k', m)] = (if k' = k then [m] else [])"
  by (simp_all add: for_key_def)

lemma for_key_same [simp]: "for_key k (map (Pair k') ms) = (if k' = k then ms else [])"
  by (simp add: for_key_def comp_def)

text \<open>
  Per thread: what was handed over is what was started, in that order, then what is still
  queued; only messages queued behind one whose handling panicked are missing.
\<close>

definition fifo_inv :: "('m, 'a) fan_out \<Rightarrow> bool" where
  "fifo_inv f \<longleftrightarrow>
     (\<forall>k. subseq (for_key k (fo_started f) @ queue_of f k) (for_key k (fo_in f)) \<and>
        mset (for_key k (fo_in f)) =
          mset (for_key k (fo_started f)) + mset (queue_of f k) + mset (for_key k (fo_lost f)))"

lemma fifo_inv_new [simp]: "fifo_inv fan_new"
  by (simp add: fifo_inv_def fan_new_def queue_of_def)

lemma fifo_exact:
  assumes "fifo_inv f" "for_key k (fo_lost f) = []"
  shows "for_key k (fo_in f) = for_key k (fo_started f) @ queue_of f k"
proof -
  let ?xs = "for_key k (fo_started f) @ queue_of f k"
  have "subseq ?xs (for_key k (fo_in f))" and m: "mset (for_key k (fo_in f)) = mset ?xs"
    using assms by (auto simp: fifo_inv_def)
  moreover have "length ?xs = length (for_key k (fo_in f))"
    using mset_eq_length [OF m] by simp
  ultimately show ?thesis
    by (metis subseq_same_length)
qed

lemma queue_of_handoff:
  assumes inv: "fan_inv f"
  shows "queue_of (handoff key m f) k = queue_of f k @ (if k = key then [m] else [])"
proof (cases rule: handoff_cases [where f = f and key = key and m = m])
  case (live i w)
  show ?thesis
  proof (cases "k = key")
    case True
    with live show ?thesis by (simp add: queue_of_def)
  next
    case False
    with live(1,2) inv have "wmap f k \<noteq> Some i"
      unfolding fan_inv_def by metis
    with False live(3) show ?thesis
      by (cases "wmap f k") (simp_all add: queue_of_def)
  qed
next
  case fresh
  have "wmap f k \<noteq> Some (next_task f)"
    using inv by (auto simp: fan_inv_def)
  moreover have "(case wmap f key of None \<Rightarrow> [] | Some i \<Rightarrow> case tasks f i of None \<Rightarrow> [] | Some w \<Rightarrow> wk_queue w) = []"
    using fresh(1) by (cases "wmap f key") simp_all
  ultimately show ?thesis
    unfolding fresh(2) by (cases "wmap f k") (auto simp: queue_of_def)
qed

lemma queue_of_update:
  assumes "fan_inv f" "tasks f i = Some w" "wk_key w' = wk_key w"
  shows "queue_of (f\<lparr>tasks := (tasks f)(i \<mapsto> w')\<rparr>) k = (if k = wk_key w then wk_queue w' else queue_of f k)"
  using assms by (auto simp: queue_of_def fan_inv_def split: option.split)

lemma queue_of_task: "fan_inv f \<Longrightarrow> tasks f i = Some w \<Longrightarrow> queue_of f (wk_key w) = wk_queue w"
  by (auto simp: queue_of_def fan_inv_def)

lemma queue_of_removed:
  assumes "fan_inv f" "tasks f i = Some w"
  shows "queue_of (f\<lparr>tasks := (tasks f)(i := None)\<rparr>) k = (if k = wk_key w then [] else queue_of f k)"
    and "queue_of (f\<lparr>wmap := (wmap f)(wk_key w := None), tasks := (tasks f)(i := None)\<rparr>) k =
      (if k = wk_key w then [] else queue_of f k)"
  using assms by (auto simp: queue_of_def fan_inv_def split: option.split)

lemma queue_of_history [simp]:
  "queue_of (f\<lparr>fo_in := x\<rparr>) k = queue_of f k" "queue_of (f\<lparr>fo_started := y\<rparr>) k = queue_of f k"
  "queue_of (f\<lparr>fo_lost := z\<rparr>) k = queue_of f k"
  by (simp_all add: queue_of_def cong: option.case_cong)

text \<open>Steps that keep every queue and the history.\<close>

lemma fifo_inv_same:
  assumes "fifo_inv f" "\<And>k. queue_of f' k = queue_of f k"
    "fo_in f' = fo_in f" "fo_started f' = fo_started f" "fo_lost f' = fo_lost f"
  shows "fifo_inv f'"
  using assms by (simp add: fifo_inv_def)

lemma fifo_inv_state:
  assumes "fan_inv f" "fifo_inv f" "tasks f i = Some w"
  shows "fifo_inv (f\<lparr>tasks := (tasks f)(i \<mapsto> w\<lparr>wk_state := st\<rparr>)\<rparr>)"
  by (rule fifo_inv_same [OF assms(2)])
    (simp_all add: queue_of_update [OF assms(1,3)] queue_of_task [OF assms(1,3)])

lemma handoff_history [simp]:
  "fo_in (handoff key m f) = fo_in f @ [(key, m)]" "fo_started (handoff key m f) = fo_started f"
  "fo_lost (handoff key m f) = fo_lost f"
  by (cases rule: handoff_cases [where f = f and key = key and m = m]; simp)+

lemma fifo_inv_handoff: "fan_inv f \<Longrightarrow> fifo_inv f \<Longrightarrow> fifo_inv (handoff key m f)"
  by (auto simp: fifo_inv_def queue_of_handoff simp flip: append_assoc)

lemma fifo_inv_take:
  assumes "fan_inv f" "fifo_inv f" "take_message i f = Some (m, f')"
  shows "fifo_inv f'"
proof -
  from assms(3) obtain w q where w: "tasks f i = Some w" and q: "wk_queue w = m # q"
    and f': "f' = f\<lparr>tasks := (tasks f)(i \<mapsto> w\<lparr>wk_queue := q, wk_state := Busy []\<rparr>)\<rparr>
      \<lparr>fo_started := fo_started f @ [(wk_key w, m)]\<rparr>"
    by (auto simp: take_message_Some)
  have "queue_of f (wk_key w) = m # q"
    using queue_of_task [OF assms(1) w] q by simp
  then show ?thesis
    using assms(2) unfolding fifo_inv_def f' queue_of_history
    by (simp add: queue_of_update [OF assms(1) w]) (metis append.simps(2))
qed

lemma fifo_inv_dies:
  assumes "fan_inv f" "fifo_inv f"
  shows "fifo_inv (worker_dies i f)"
proof (cases "tasks f i")
  case None
  with assms show ?thesis by (simp add: worker_dies_def)
next
  case (Some w)
  have "subseq (for_key k (fo_started f)) (for_key k (fo_in f))" for k
    using assms(2) subseq_order.order_trans [OF prefix_imp_subseq] unfolding fifo_inv_def
    by (metis prefixI)
  with Some assms show ?thesis
    by (auto simp: worker_dies_def fifo_inv_def queue_of_removed(1) [OF assms(1) Some]
        queue_of_task [OF assms(1) Some])
qed

lemma fifo_inv_step:
  assumes "fan_step f f'" "fan_inv f" "fifo_inv f"
  shows "fifo_inv f'"
  using assms
proof (induction rule: fan_step.induct)
  case (6 i f f')
  then obtain w where w: "tasks f i = Some w" "wk_queue w = []"
    and f': "f' = f\<lparr>wmap := (wmap f)(wk_key w := None), tasks := (tasks f)(i := None)\<rparr>"
    by (auto simp: reap_Some)
  show ?case
    by (rule fifo_inv_same [OF 6(3)])
      (simp_all add: f' queue_of_removed(2) [OF 6(2) w(1)] queue_of_task [OF 6(2) w(1)] w(2))
qed (auto simp: fifo_inv_handoff fifo_inv_take fifo_inv_dies fifo_inv_state set_actions_def
    next_action_Some idle_timeout_Some split: option.splits)

section \<open>Progress of a worker\<close>

text \<open>A queued message can always be taken up once its worker has performed its actions.\<close>

lemma worker_progress:
  assumes "tasks f i = Some w" "wk_queue w \<noteq> [] \<or> (\<exists>as. wk_state w = Busy as)"
  shows "(\<exists>m f'. take_message i f = Some (m, f')) \<or> (\<exists>a f'. next_action i f = Some (a, f'))"
proof (cases "wk_state w")
  case (Busy as)
  then show ?thesis
    using assms(1) by (cases as) (simp_all add: next_action_def)
qed (use assms in \<open>auto simp: take_message_Some neq_Nil_conv\<close>)

end
