(* ===== verification/Pipeline.thy ===== *)
theory Pipeline
  imports Call_Laws Workers
begin

text \<open>
  \<open>src/pipeline.rs\<close>: the running pipeline.  Four stages joined by bounded channels, the workers
  behind the dispatch stage, and the way back from the workers to the ingress.  A stage that has
  received a message but waits for room downstream holds it (\<open>p_parse_hold\<close> and so on).  Each
  definition below is one atomic piece of a stage's loop; \<open>pstep\<close> interleaves them.
\<close>

section \<open>State\<close>

definition CHANNEL_BUFFER :: nat where
  "CHANNEL_BUFFER = 256"

record 's pipeline =
  p_registry :: "'s listener_registry"
  p_middleware :: "'s middleware list"
  p_federation :: "federation_egress option"
  p_observer :: bool
  p_running_mw :: "'s middleware list"
  p_ingress :: "u8 list list"
  p_parse_hold :: "envelope option"
  p_parsed :: "envelope list"
  p_validate_hold :: "validated_msg option"
  p_validated :: "validated_msg list"
  p_route_hold :: "(envelope + routed_msg) option"
  p_routed :: "routed_msg list"
  p_egress :: "envelope list"
  p_egress_open :: bool
  p_fan :: "(routed_msg, action) fan_out"
  p_threads :: thread_registry
  p_host :: 's
  p_events :: "action list"
  p_shutdown :: bool
  p_parse_up :: bool
  p_validate_up :: bool
  p_route_up :: bool
  p_dispatch_up :: bool

definition pipeline_new :: "'s listener_registry \<Rightarrow> thread_registry \<Rightarrow> 's \<Rightarrow> 's pipeline" where
  "pipeline_new reg threads host =
     \<lparr>p_registry = reg, p_middleware = [], p_federation = None, p_observer = False, p_running_mw = [],
      p_ingress = [], p_parse_hold = None, p_parsed = [], p_validate_hold = None, p_validated = [],
      p_route_hold = None, p_routed = [], p_egress = [], p_egress_open = True, p_fan = fan_new, p_threads = threads,
      p_host = host, p_events = [], p_shutdown = False, p_parse_up = False, p_validate_up = False,
      p_route_up = False, p_dispatch_up = False\<rparr>"

definition with_federation :: "federation_egress \<Rightarrow> 's pipeline \<Rightarrow> 's pipeline" where
  "with_federation egress p = p\<lparr>p_federation := Some egress\<rparr>"

definition with_dispatch_observer :: "'s pipeline \<Rightarrow> 's pipeline" where
  "with_dispatch_observer p = p\<lparr>p_observer := True\<rparr>"

definition add_middleware :: "'s middleware \<Rightarrow> 's pipeline \<Rightarrow> 's pipeline" where
  "add_middleware mw p = p\<lparr>p_middleware := p_middleware p @ [mw]\<rparr>"

definition pipeline_run :: "'s pipeline \<Rightarrow> 's pipeline" where
  "pipeline_run p = p\<lparr>p_shutdown := False, p_ingress := [], p_parse_hold := None, p_parsed := [],
     p_validate_hold := None, p_validated := [], p_route_hold := None, p_routed := [], p_fan := fan_new,
     p_running_mw := p_middleware p, p_middleware := [],
     p_parse_up := True, p_validate_up := True, p_route_up := True, p_dispatch_up := True\<rparr>"

definition dispatch_ctx_of :: "'s pipeline \<Rightarrow> 's dispatch_ctx" where
  "dispatch_ctx_of p = \<lparr>dx_registry = p_registry p, dx_middleware = p_running_mw p, dx_observed = p_observer p\<rparr>"

section \<open>Ingress and the parse stage\<close>

text \<open>A send on a bounded channel waits (\<open>None\<close>) while the channel is full.\<close>

definition has_room :: "'a list \<Rightarrow> bool" where
  "has_room ch \<longleftrightarrow> length ch < CHANNEL_BUFFER"

definition inject :: "u8 list \<Rightarrow> 's pipeline \<Rightarrow> ((unit, pipeline_error) result \<times> 's pipeline) option" where
  "inject raw p =
     (if \<not> p_parse_up p then Some (Err (HandlerError (Msg ''pipeline shut down'' [])), p)
      else if has_room (p_ingress p) then Some (Ok (), p\<lparr>p_ingress := p_ingress p @ [raw]\<rparr>)
      else None)"

definition signal_shutdown :: "'s pipeline \<Rightarrow> 's pipeline" where
  "signal_shutdown p = p\<lparr>p_shutdown := True\<rparr>"

text \<open>\<open>shutdown\<close> returns when the tasks of all stages have ended; it does not wait for the workers.\<close>

definition shutdown_returns :: "'s pipeline \<Rightarrow> bool" where
  "shutdown_returns p \<longleftrightarrow> \<not> p_parse_up p \<and> \<not> p_validate_up p \<and> \<not> p_route_up p \<and> \<not> p_dispatch_up p"

definition parse_recv :: "lib \<Rightarrow> 's pipeline \<Rightarrow> 's pipeline option" where
  "parse_recv L p =
     (case p_ingress p of
        [] \<Rightarrow> None
      | raw # r \<Rightarrow>
          if p_parse_up p \<and> p_parse_hold p = None then
            Some (case parse_msg_stage L raw of
                Ok env \<Rightarrow> p\<lparr>p_ingress := r, p_parse_hold := Some env\<rparr>
              | Err e \<Rightarrow> p\<lparr>p_ingress := r\<rparr>
              | Panic \<Rightarrow> p\<lparr>p_ingress := [], p_parse_up := False\<rparr>)
          else None)"

definition parse_send :: "'s pipeline \<Rightarrow> 's pipeline option" where
  "parse_send p =
     (case p_parse_hold p of
        None \<Rightarrow> None
      | Some env \<Rightarrow>
          if \<not> p_validate_up p then Some (p\<lparr>p_parse_hold := None, p_ingress := [], p_parse_up := False\<rparr>)
          else if has_room (p_parsed p)
          then Some (p\<lparr>p_parse_hold := None, p_parsed := p_parsed p @ [env]\<rparr>)
          else None)"

definition parse_shutdown :: "'s pipeline \<Rightarrow> 's pipeline option" where
  "parse_shutdown p =
     (if p_parse_up p \<and> p_parse_hold p = None \<and> p_shutdown p
      then Some (p\<lparr>p_parse_up := False, p_ingress := [], p_shutdown := False\<rparr>) else None)"

section \<open>The validate stage\<close>

definition validate_recv :: "'s pipeline \<Rightarrow> 's pipeline option" where
  "validate_recv p =
     (case p_parsed p of
        [] \<Rightarrow> None
      | env # r \<Rightarrow>
          if p_validate_up p \<and> p_validate_hold p = None then
            Some (case validate_msg (p_registry p) env of
                Ok vm \<Rightarrow> p\<lparr>p_parsed := r, p_validate_hold := Some vm\<rparr>
              | _ \<Rightarrow> p\<lparr>p_parsed := r\<rparr>)
          else None)"

definition validate_send :: "'s pipeline \<Rightarrow> 's pipeline option" where
  "validate_send p =
     (case p_validate_hold p of
        None \<Rightarrow> None
      | Some vm \<Rightarrow>
          if \<not> p_route_up p then Some (p\<lparr>p_validate_hold := None, p_parsed := [], p_validate_up := False\<rparr>)
          else if has_room (p_validated p)
          then Some (p\<lparr>p_validate_hold := None, p_validated := p_validated p @ [vm]\<rparr>)
          else None)"

definition validate_end :: "'s pipeline \<Rightarrow> 's pipeline option" where
  "validate_end p =
     (if p_validate_up p \<and> p_validate_hold p = None \<and> p_parsed p = [] \<and> \<not> p_parse_up p
      then Some (p\<lparr>p_validate_up := False\<rparr>) else None)"

section \<open>The route stage\<close>

definition route_recv :: "'s pipeline \<Rightarrow> 's pipeline option" where
  "route_recv p =
     (case p_validated p of
        [] \<Rightarrow> None
      | vm # r \<Rightarrow>
          if p_route_up p \<and> p_route_hold p = None then
            (let (out, threads') = route_msg (p_registry p) (p_federation p) (p_threads p) vm;
                 p1 = p\<lparr>p_validated := r, p_threads := threads'\<rparr>
             in Some (case out of
                  Egress env \<Rightarrow> p1\<lparr>p_route_hold := Some (Inl env)\<rparr>
                | Routed rm \<Rightarrow> p1\<lparr>p_route_hold := Some (Inr rm)\<rparr>
                | Dropped e \<Rightarrow> p1))
          else None)"

text \<open>
  The send to the federation server: when the server has dropped its receiver, the envelope is
  dropped with a warning and the stage goes on.
\<close>

definition egress_send :: "nat \<Rightarrow> envelope \<Rightarrow> 's pipeline \<Rightarrow> 's pipeline option" where
  "egress_send cap env p =
     (if \<not> p_egress_open p then Some (p\<lparr>p_route_hold := None\<rparr>)
      else if length (p_egress p) < cap
      then Some (p\<lparr>p_route_hold := None, p_egress := p_egress p @ [env]\<rparr>)
      else None)"

definition route_send :: "nat \<Rightarrow> 's pipeline \<Rightarrow> 's pipeline option" where
  "route_send cap p =
     (case p_route_hold p of
        None \<Rightarrow> None
      | Some (Inl env) \<Rightarrow> egress_send cap env p
      | Some (Inr rm) \<Rightarrow>
          if \<not> p_dispatch_up p then Some (p\<lparr>p_route_hold := None, p_validated := [], p_route_up := False\<rparr>)
          else if has_room (p_routed p)
          then Some (p\<lparr>p_route_hold := None, p_routed := p_routed p @ [rm]\<rparr>)
          else None)"

definition route_end :: "'s pipeline \<Rightarrow> 's pipeline option" where
  "route_end p =
     (if p_route_up p \<and> p_route_hold p = None \<and> p_validated p = [] \<and> \<not> p_validate_up p
      then Some (p\<lparr>p_route_up := False\<rparr>) else None)"

section \<open>The dispatch stage and its workers\<close>

definition dispatch_recv :: "'s pipeline \<Rightarrow> 's pipeline option" where
  "dispatch_recv p =
     (case p_routed p of
        [] \<Rightarrow> None
      | rm # r \<Rightarrow>
          if p_dispatch_up p
          then Some (p\<lparr>p_routed := r, p_fan := handoff (thread_of rm) rm (p_fan p)\<rparr>) else None)"

definition dispatch_end :: "'s pipeline \<Rightarrow> 's pipeline option" where
  "dispatch_end p =
     (if p_dispatch_up p \<and> p_routed p = [] \<and> \<not> p_route_up p
      then Some (p\<lparr>p_dispatch_up := False\<rparr>) else None)"

text \<open>
  A worker takes up a message, runs its handler, answers for it under the registry's lock, and
  performs what it is left to do; other tasks may step in between.
\<close>

definition worker_take :: "nat \<Rightarrow> 's pipeline \<Rightarrow> 's pipeline option" where
  "worker_take i p =
     (case take_message i (p_fan p) of
        None \<Rightarrow> None
      | Some (rm, fan1) \<Rightarrow> Some (p\<lparr>p_fan := set_actions i [ARun rm] fan1\<rparr>))"

definition worker_run :: "nat \<Rightarrow> 's pipeline \<Rightarrow> 's pipeline option" where
  "worker_run i p =
     (case next_action i (p_fan p) of
        Some (Some (ARun rm), fan1) \<Rightarrow>
          (case handle_message (dispatch_ctx_of p) rm (p_host p) of
             (Some Panic, s') \<Rightarrow> Some (p\<lparr>p_fan := worker_dies i fan1, p_host := s'\<rparr>)
           | (result, s') \<Rightarrow>
               Some (p\<lparr>p_fan := set_actions i (after_handler (dispatch_ctx_of p) rm result) fan1, p_host := s'\<rparr>))
      | _ \<Rightarrow> None)"

definition worker_respond :: "lib \<Rightarrow> string \<Rightarrow> nat \<Rightarrow> 's pipeline \<Rightarrow> 's pipeline option" where
  "worker_respond L fresh i p =
     (case next_action i (p_fan p) of
        Some (Some (ARespond rm r), fan1) \<Rightarrow>
          (let (threads', acts) = respond L (dispatch_ctx_of p) (p_threads p) fresh rm r
           in Some (p\<lparr>p_fan := set_actions i acts fan1, p_threads := threads'\<rparr>))
      | _ \<Rightarrow> None)"

definition worker_act :: "nat \<Rightarrow> 's pipeline \<Rightarrow> 's pipeline option" where
  "worker_act i p =
     (case next_action i (p_fan p) of
        None \<Rightarrow> None
      | Some (None, fan1) \<Rightarrow> Some (p\<lparr>p_fan := fan1\<rparr>)
      | Some (Some a, fan1) \<Rightarrow>
          (case a of
             ARun rm \<Rightarrow> None
           | ARespond rm r \<Rightarrow> None
           | ASend raw \<Rightarrow>
               if \<not> p_parse_up p then Some (p\<lparr>p_fan := fan1\<rparr>)
               else if has_room (p_ingress p)
               then Some (p\<lparr>p_fan := fan1, p_ingress := p_ingress p @ [raw]\<rparr>)
               else None
           | _ \<Rightarrow> Some (p\<lparr>p_fan := fan1, p_events := p_events p @ [a]\<rparr>)))"

definition worker_timeout :: "nat \<Rightarrow> 's pipeline \<Rightarrow> 's pipeline option" where
  "worker_timeout i p = map_option (\<lambda>f. p\<lparr>p_fan := f\<rparr>) (idle_timeout i (p_fan p))"

definition worker_reap :: "nat \<Rightarrow> 's pipeline \<Rightarrow> 's pipeline option" where
  "worker_reap i p = map_option (\<lambda>f. p\<lparr>p_fan := f\<rparr>) (reap i (p_fan p))"

section \<open>The interleaving\<close>

text \<open>
  \<open>pwork\<close> is what the pipeline's own tasks do; \<open>pstep\<close> adds the outside: a sender that injects,
  the federation server that drains the egress channel or drops its receiver (with what is
  queued in it), the shutdown signal.
\<close>

inductive pwork :: "lib \<Rightarrow> nat \<Rightarrow> 's pipeline \<Rightarrow> 's pipeline \<Rightarrow> bool" for L :: lib and cap :: nat where
  parse_recv: "parse_recv L p = Some p' \<Longrightarrow> pwork L cap p p'"
| parse_send: "parse_send p = Some p' \<Longrightarrow> pwork L cap p p'"
| parse_shutdown: "parse_shutdown p = Some p' \<Longrightarrow> pwork L cap p p'"
| validate_recv: "validate_recv p = Some p' \<Longrightarrow> pwork L cap p p'"
| validate_send: "validate_send p = Some p' \<Longrightarrow> pwork L cap p p'"
| validate_end: "validate_end p = Some p' \<Longrightarrow> pwork L cap p p'"
| route_recv: "route_recv p = Some p' \<Longrightarrow> pwork L cap p p'"
| route_send: "route_send cap p = Some p' \<Longrightarrow> pwork L cap p p'"
| route_end: "route_end p = Some p' \<Longrightarrow> pwork L cap p p'"
| dispatch_recv: "dispatch_recv p = Some p' \<Longrightarrow> pwork L cap p p'"
| dispatch_end: "dispatch_end p = Some p' \<Longrightarrow> pwork L cap p p'"
| worker_take: "worker_take i p = Some p' \<Longrightarrow> pwork L cap p p'"
| worker_run: "worker_run i p = Some p' \<Longrightarrow> pwork L cap p p'"
| worker_respond: "uuid_to_chain (p_threads p) fresh = None \<Longrightarrow> worker_respond L fresh i p = Some p' \<Longrightarrow>
    pwork L cap p p'"
| worker_act: "worker_act i p = Some p' \<Longrightarrow> pwork L cap p p'"
| worker_timeout: "worker_timeout i p = Some p' \<Longrightarrow> pwork L cap p p'"
| worker_reap: "worker_reap i p = Some p' \<Longrightarrow> pwork L cap p p'"

inductive pstep :: "lib \<Rightarrow> nat \<Rightarrow> (u8 list \<Rightarrow> bool) \<Rightarrow> 's pipeline \<Rightarrow> 's pipeline \<Rightarrow> bool"
  for L :: lib and cap :: nat and may_inject :: "u8 list \<Rightarrow> bool" where
  work: "pwork L cap p p' \<Longrightarrow> pstep L cap may_inject p p'"
| inject: "may_inject raw \<Longrightarrow> inject raw p = Some (res, p') \<Longrightarrow> pstep L cap may_inject p p'"
| drain: "p_egress p = env # r \<Longrightarrow> pstep L cap may_inject p (p\<lparr>p_egress := r\<rparr>)"
| hangup: "pstep L cap may_inject p (p\<lparr>p_egress := [], p_egress_open := False\<rparr>)"
| signal: "pstep L cap may_inject p (signal_shutdown p)"

inductive reachable :: "lib \<Rightarrow> nat \<Rightarrow> (u8 list \<Rightarrow> bool) \<Rightarrow> 's pipeline \<Rightarrow> 's pipeline \<Rightarrow> bool"
  for L :: lib and cap :: nat and may_inject :: "u8 list \<Rightarrow> bool" and p0 :: "'s pipeline" where
  start: "reachable L cap may_inject p0 (pipeline_run p0)"
| step: "reachable L cap may_inject p0 p \<Longrightarrow> pstep L cap may_inject p p' \<Longrightarrow> reachable L cap may_inject p0 p'"

inductive_cases pstepE: "pstep L cap may_inject p p'"
inductive_cases pworkE: "pwork L cap p p'"

end
