(* ===== verification/Pipeline_Steps.thy ===== *)
theory Pipeline_Steps
  imports Pipeline
begin

text \<open>
  What each step of the running pipeline does when it is possible, one fact per definition of
  \<open>Pipeline\<close>: the branches as equations on the state, so that proofs about steps need no case
  analysis of the definitions.
\<close>

lemma parse_recv_Some:
  "parse_recv L p = Some p' \<longleftrightarrow> p_parse_up p \<and> p_parse_hold p = None \<and> (\<exists>raw r. p_ingress p = raw # r \<and>
     p' = (case parse_msg_stage L raw of Ok env \<Rightarrow> p\<lparr>p_ingress := r, p_parse_hold := Some env\<rparr>
       | Err e \<Rightarrow> p\<lparr>p_ingress := r\<rparr> | Panic \<Rightarrow> p\<lparr>p_ingress := [], p_parse_up := False\<rparr>))"
  by (auto simp: parse_recv_def split: list.splits if_splits)

lemma parse_send_Some:
  "parse_send p = Some p' \<longleftrightarrow> (\<exists>env. p_parse_hold p = Some env \<and>
     (\<not> p_validate_up p \<and> p' = p\<lparr>p_parse_hold := None, p_ingress := [], p_parse_up := False\<rparr> \<or>
      p_validate_up p \<and> has_room (p_parsed p) \<and> p' = p\<lparr>p_parse_hold := None, p_parsed := p_parsed p @ [env]\<rparr>))"
  by (auto simp: parse_send_def split: option.splits if_splits)

lemma parse_shutdown_Some:
  "parse_shutdown p = Some p' \<longleftrightarrow> p_parse_up p \<and> p_parse_hold p = None \<and> p_shutdown p \<and>
     p' = p\<lparr>p_parse_up := False, p_ingress := [], p_shutdown := False\<rparr>"
  by (auto simp: parse_shutdown_def split: if_splits)

lemma validate_recv_Some:
  "validate_recv p = Some p' \<longleftrightarrow> p_validate_up p \<and> p_validate_hold p = None \<and> (\<exists>env r. p_parsed p = env # r \<and>
     (p' = p\<lparr>p_parsed := r, p_validate_hold := Some (case validate_msg (p_registry p) env of Ok vm \<Rightarrow> vm)\<rparr> \<and>
        is_ok (validate_msg (p_registry p) env) \<or>
      p' = p\<lparr>p_parsed := r\<rparr> \<and> \<not> is_ok (validate_msg (p_registry p) env)))"
  by (auto simp: validate_recv_def split: list.splits if_splits result.splits)

lemma validate_send_Some:
  "validate_send p = Some p' \<longleftrightarrow> (\<exists>vm. p_validate_hold p = Some vm \<and>
     (\<not> p_route_up p \<and> p' = p\<lparr>p_validate_hold := None, p_parsed := [], p_validate_up := False\<rparr> \<or>
      p_route_up p \<and> has_room (p_validated p) \<and> p' = p\<lparr>p_validate_hold := None, p_validated := p_validated p @ [vm]\<rparr>))"
  by (auto simp: validate_send_def split: option.splits if_splits)

lemma validate_end_Some:
  "validate_end p = Some p' \<longleftrightarrow> p_validate_up p \<and> p_validate_hold p = None \<and> p_parsed p = [] \<and> \<not> p_parse_up p \<and>
     p' = p\<lparr>p_validate_up := False\<rparr>"
  by (auto simp: validate_end_def split: if_splits)

lemma route_recv_Some:
  "route_recv p = Some p' \<Longrightarrow> p_route_up p \<and> p_route_hold p = None \<and> (\<exists>vm r threads' h. p_validated p = vm # r \<and>
     p' = p\<lparr>p_validated := r, p_threads := threads', p_route_hold := h\<rparr>)"
  by (cases p) (auto simp: route_recv_def Let_def split: list.splits if_splits prod.splits route_outcome.splits)

lemma route_send_Some:
  "route_send cap p = Some p' \<longleftrightarrow>
     (\<exists>env. p_route_hold p = Some (Inl env) \<and>
        (\<not> p_egress_open p \<and> p' = p\<lparr>p_route_hold := None\<rparr> \<or>
         p_egress_open p \<and> length (p_egress p) < cap \<and> p' = p\<lparr>p_route_hold := None, p_egress := p_egress p @ [env]\<rparr>)) \<or>
     (\<exists>rm. p_route_hold p = Some (Inr rm) \<and>
        (\<not> p_dispatch_up p \<and> p' = p\<lparr>p_route_hold := None, p_validated := [], p_route_up := False\<rparr> \<or>
         p_dispatch_up p \<and> has_room (p_routed p) \<and> p' = p\<lparr>p_route_hold := None, p_routed := p_routed p @ [rm]\<rparr>))"
  by (auto simp: route_send_def egress_send_def split: option.splits sum.splits if_splits)

lemma route_end_Some:
  "route_end p = Some p' \<longleftrightarrow> p_route_up p \<and> p_route_hold p = None \<and> p_validated p = [] \<and> \<not> p_validate_up p \<and>
     p' = p\<lparr>p_route_up := False\<rparr>"
  by (auto simp: route_end_def split: if_splits)

lemma dispatch_recv_Some:
  "dispatch_recv p = Some p' \<longleftrightarrow> p_dispatch_up p \<and> (\<exists>rm r. p_routed p = rm # r \<and>
     p' = p\<lparr>p_routed := r, p_fan := handoff (thread_of rm) rm (p_fan p)\<rparr>)"
  by (auto simp: dispatch_recv_def split: list.splits if_splits)

lemma dispatch_end_Some:
  "dispatch_end p = Some p' \<longleftrightarrow> p_dispatch_up p \<and> p_routed p = [] \<and> \<not> p_route_up p \<and> p' = p\<lparr>p_dispatch_up := False\<rparr>"
  by (auto simp: dispatch_end_def split: if_splits)

lemma worker_take_Some:
  "worker_take i p = Some p' \<longleftrightarrow> (\<exists>rm fan1. take_message i (p_fan p) = Some (rm, fan1) \<and>
     p' = p\<lparr>p_fan := set_actions i [ARun rm] fan1\<rparr>)"
  by (auto simp: worker_take_def split: option.splits prod.splits)

lemma worker_run_Some:
  assumes "worker_run i p = Some p'"
  obtains rm fan1 fan2 s' result where "next_action i (p_fan p) = Some (Some (ARun rm), fan1)"
    "p' = p\<lparr>p_fan := fan2, p_host := s'\<rparr>"
    "handle_message (dispatch_ctx_of p) rm (p_host p) = (result, s')"
    "result = Some Panic \<and> fan2 = worker_dies i fan1 \<or>
     fan2 = set_actions i (after_handler (dispatch_ctx_of p) rm result) fan1"
proof -
  from assms obtain rm fan1 where n: "next_action i (p_fan p) = Some (Some (ARun rm), fan1)"
    by (auto simp: worker_run_def split: option.splits prod.splits action.splits)
  obtain result s' where h: "handle_message (dispatch_ctx_of p) rm (p_host p) = (result, s')"
    by fastforce
  from assms n h show thesis
    by (auto simp: worker_run_def intro: that [OF n _ h] split: option.splits result.splits)
qed

lemma worker_respond_Some:
  assumes "worker_respond L fresh i p = Some p'"
  obtains rm r fan1 threads' acts where "next_action i (p_fan p) = Some (Some (ARespond rm r), fan1)"
    "respond L (dispatch_ctx_of p) (p_threads p) fresh rm r = (threads', acts)"
    "p' = p\<lparr>p_fan := set_actions i acts fan1, p_threads := threads'\<rparr>"
  using assms
  by (auto simp: worker_respond_def Let_def split: option.splits prod.splits action.splits)

lemma worker_act_Some:
  assumes "worker_act i p = Some p'"
  obtains a fan1 xs es where "next_action i (p_fan p) = Some (a, fan1)"
    "p' = p\<lparr>p_fan := fan1, p_ingress := xs, p_events := es\<rparr>"
    "xs = p_ingress p \<or> p_parse_up p \<and> has_room (p_ingress p) \<and> (\<exists>raw. a = Some (ASend raw) \<and> xs = p_ingress p @ [raw])"
proof -
  from assms obtain a fan1 where n: "next_action i (p_fan p) = Some (a, fan1)"
    by (auto simp: worker_act_def split: option.splits)
  define p1 where "p1 = p\<lparr>p_fan := fan1\<rparr>"
  have p1: "p1 = p\<lparr>p_fan := fan1, p_ingress := p_ingress p, p_events := p_events p\<rparr>"
    "p1\<lparr>p_ingress := xs\<rparr> = p\<lparr>p_fan := fan1, p_ingress := xs, p_events := p_events p\<rparr>"
    "p1\<lparr>p_events := es\<rparr> = p\<lparr>p_fan := fan1, p_ingress := p_ingress p, p_events := es\<rparr>" for xs es
    by (cases p; simp add: p1_def)+
  show thesis
  proof (cases a)
    case None
    with assms n have "p' = p1" by (simp add: worker_act_def p1_def)
    from that [OF n trans [OF this p1(1)]] show thesis by simp
  next
    case (Some x)
    show thesis
    proof (cases x)
      case (ASend raw)
      with assms n Some have "\<not> p_parse_up p \<and> p' = p1 \<or>
          p_parse_up p \<and> has_room (p_ingress p) \<and> p' = p1\<lparr>p_ingress := p_ingress p @ [raw]\<rparr>"
        by (simp add: worker_act_def p1_def split: if_splits)
      then show thesis
      proof (elim disjE conjE)
        assume "p' = p1"
        from that [OF n trans [OF this p1(1)]] show thesis by simp
      next
        assume "p_parse_up p" "has_room (p_ingress p)" "p' = p1\<lparr>p_ingress := p_ingress p @ [raw]\<rparr>"
        with that [OF n trans [OF this(3) p1(2)]] Some ASend show thesis by simp
      qed
    next
      case (ARun rm)
      with assms n Some show thesis by (simp add: worker_act_def)
    next
      case (ARespond rm r)
      with assms n Some show thesis by (simp add: worker_act_def)
    next
      case (AOpen u v w k)
      with assms n Some have "p' = p1\<lparr>p_events := p_events p @ [x]\<rparr>"
        by (simp add: worker_act_def p1_def)
      from that [OF n trans [OF this p1(3)]] show thesis by simp
    next
      case (AClose u)
      with assms n Some have "p' = p1\<lparr>p_events := p_events p @ [x]\<rparr>"
        by (simp add: worker_act_def p1_def)
      from that [OF n trans [OF this p1(3)]] show thesis by simp
    qed
  qed
qed

lemma worker_timeout_Some:
  "worker_timeout i p = Some p' \<longleftrightarrow> (\<exists>f. idle_timeout i (p_fan p) = Some f \<and> p' = p\<lparr>p_fan := f\<rparr>)"
  by (auto simp: worker_timeout_def)

lemma worker_reap_Some:
  "worker_reap i p = Some p' \<longleftrightarrow> (\<exists>f. reap i (p_fan p) = Some f \<and> p' = p\<lparr>p_fan := f\<rparr>)"
  by (auto simp: worker_reap_def)


lemmas stage_Some = parse_recv_Some parse_send_Some parse_shutdown_Some validate_recv_Some validate_send_Some
  validate_end_Some route_send_Some route_end_Some dispatch_recv_Some dispatch_end_Some
  worker_take_Some worker_timeout_Some worker_reap_Some

end
