(* ===== verification/Pipeline_Laws.thy ===== *)
theory Pipeline_Laws
  imports Pipeline_Steps
begin

text \<open>
  Invariants of the running pipeline over every interleaving of its tasks: the registry of
  threads and the workers stay consistent, channels stay within their buffers, only messages
  that passed every gate reach a worker, and the pipeline cannot get stuck.
\<close>

section \<open>What a step changes\<close>

lemmas stage_defs = parse_recv_def parse_send_def parse_shutdown_def validate_recv_def
  validate_send_def validate_end_def route_recv_def route_send_def egress_send_def route_end_def
  dispatch_recv_def dispatch_end_def

lemmas worker_defs = worker_take_def worker_run_def worker_respond_def worker_act_def worker_timeout_def worker_reap_def

lemmas outcome_splits = list.splits option.splits if_splits result.splits prod.splits sum.splits
  route_outcome.splits action.splits

lemma pwork_config:
  assumes "pwork L cap p p'"
  shows "p_registry p' = p_registry p" "p_running_mw p' = p_running_mw p"
    "p_federation p' = p_federation p" "p_observer p' = p_observer p"
  using assms
  by (cases; auto simp: stage_defs worker_defs Let_def split: outcome_splits)+

lemma pwork_ctx: "pwork L cap p p' \<Longrightarrow> dispatch_ctx_of p' = dispatch_ctx_of p"
  by (simp add: dispatch_ctx_of_def pwork_config)

lemma pwork_threads:
  assumes "pwork L cap p p'"
  shows "evolves L (dispatch_ctx_of p) (p_federation p) (p_threads p) (p_threads p')"
  using assms
proof cases
  case route_recv
  then obtain vm out where
    "route_msg (dx_registry (dispatch_ctx_of p)) (p_federation p) (p_threads p) vm = (out, p_threads p')"
    by (auto simp: route_recv_def dispatch_ctx_of_def Let_def split: list.splits if_splits prod.splits
        route_outcome.splits)
  then show ?thesis
    by (rule evolves.routed [OF evolves.stay])
next
  case (worker_respond fresh i)
  from worker_respond(2) show ?thesis
    by (cases rule: worker_respond_Some) (auto intro: evolves.responded [OF evolves.stay worker_respond(1)])
qed (auto simp: stage_defs worker_defs Let_def intro: evolves.stay split: outcome_splits)

lemma pwork_fan:
  assumes "pwork L cap p p'"
  shows "fan_step\<^sup>*\<^sup>* (p_fan p) (p_fan p')"
proof -
  have two: "fan_step\<^sup>*\<^sup>* f f''" if "fan_step f f'" "fan_step f' f''" for f f' f'' :: "(routed_msg, action) fan_out"
    using that by (meson converse_rtranclp_into_rtranclp r_into_rtranclp)
  from assms show ?thesis
  proof cases
    case (worker_take i)
    then obtain rm fan1 where "take_message i (p_fan p) = Some (rm, fan1)"
      "p_fan p' = set_actions i [ARun rm] fan1"
      by (auto simp: worker_take_Some)
    then have "fan_step (p_fan p) fan1" "fan_step fan1 (p_fan p')"
      by (auto intro: fan_step.intros)
    then show ?thesis by (rule two)
  next
    case (worker_run i)
    then show ?thesis
    proof (cases rule: worker_run_Some)
      case (1 rm fan1 fan2 s' result)
      then have "fan_step (p_fan p) fan1" "fan_step fan1 (p_fan p')"
        by (auto intro: fan_step.intros)
      then show ?thesis by (rule two)
    qed
  next
    case (worker_respond fresh i)
    from worker_respond(2) show ?thesis
    proof (cases rule: worker_respond_Some)
      case (1 rm r fan1 threads' acts)
      then have "fan_step (p_fan p) fan1" "fan_step fan1 (p_fan p')"
        by (auto intro: fan_step.intros)
      then show ?thesis by (rule two)
    qed
  next
    case dispatch_recv
    then obtain rm where "p_fan p' = handoff (thread_of rm) rm (p_fan p)"
      by (auto simp: dispatch_recv_def split: list.splits if_splits)
    then show ?thesis
      using fan_step.intros(1) [of "p_fan p"] by (metis r_into_rtranclp)
  next
    case (worker_act i)
    then show ?thesis
      by (cases rule: worker_act_Some) (auto intro: fan_step.intros(4))
  next
    case (worker_timeout i)
    then show ?thesis
      using fan_step.intros(5) by (fastforce simp: worker_timeout_def)
  next
    case (worker_reap i)
    then show ?thesis
      using fan_step.intros(6) by (fastforce simp: worker_reap_def)
  qed (auto simp: stage_defs Let_def split: outcome_splits)
qed

lemma fan_steps_inv: "fan_step\<^sup>*\<^sup>* f f' \<Longrightarrow> fan_inv f \<and> fifo_inv f \<Longrightarrow> fan_inv f' \<and> fifo_inv f'"
  by (induction rule: rtranclp_induct) (auto intro: fan_inv_step fifo_inv_step)

lemma fan_history [simp]:
  "fo_in (set_actions i as f) = fo_in f" "fo_in (worker_dies i f) = fo_in f"
  "fo_started (set_actions i as f) = fo_started f" "fo_started (worker_dies i f) = fo_started f"
  by (simp_all add: set_actions_def worker_dies_def split: option.split)

lemma take_history: "take_message i f = Some (m, f') \<Longrightarrow> fo_in f' = fo_in f"
  by (auto simp: take_message_Some)

lemma next_history: "next_action i f = Some (a, f') \<Longrightarrow> fo_in f' = fo_in f"
  by (auto simp: next_action_Some)

lemma pwork_fo_in:
  assumes "pwork L cap p p'"
  shows "fo_in (p_fan p') = fo_in (p_fan p) \<or>
    (\<exists>rm \<in> set (p_routed p). fo_in (p_fan p') = fo_in (p_fan p) @ [(thread_of rm, rm)])"
  using assms
proof cases
  case (worker_take i)
  then show ?thesis
    by (auto simp: worker_take_Some dest: take_history)
next
  case (worker_run i)
  then show ?thesis
    by (cases rule: worker_run_Some) (auto dest: next_history)
next
  case (worker_respond fresh i)
  from worker_respond(2) show ?thesis
    by (cases rule: worker_respond_Some) (auto dest: next_history)
next
  case (worker_act i)
  then show ?thesis
    by (cases rule: worker_act_Some) (auto dest: next_history)
next
  case (worker_timeout i)
  then show ?thesis by (auto simp: worker_timeout_def idle_timeout_Some)
next
  case (worker_reap i)
  then show ?thesis by (auto simp: worker_reap_def reap_Some)
qed (auto simp: stage_defs Let_def split: outcome_splits)

section \<open>Consistency\<close>

definition base_inv :: "'s pipeline \<Rightarrow> bool" where
  "base_inv p \<longleftrightarrow> threads_inv (p_threads p) \<and> fan_inv (p_fan p) \<and> fifo_inv (p_fan p)"

lemma base_inv_work: "pwork L cap p p' \<Longrightarrow> base_inv p \<Longrightarrow> base_inv p'"
  using evolves_keeps [OF pwork_threads] fan_steps_inv [OF pwork_fan]
  unfolding base_inv_def by blast

text \<open>Steps of the outside leave everything but the two outer channels alone.\<close>

lemma inject_fields:
  assumes "inject raw p = Some (res, p')"
  shows "p' = p \<or> (p_parse_up p \<and> has_room (p_ingress p) \<and> p' = p\<lparr>p_ingress := p_ingress p @ [raw]\<rparr>)"
  using assms by (auto simp: inject_def split: if_splits)

lemma pstep_cases:
  assumes "pstep L cap may p p'"
  obtains (work) "pwork L cap p p'"
    | (outside) xs es c b where "p' = p\<lparr>p_ingress := xs, p_egress := es, p_egress_open := c, p_shutdown := b\<rparr>"
        "xs = p_ingress p \<or> (\<exists>raw. may raw \<and> has_room (p_ingress p) \<and> xs = p_ingress p @ [raw])"
        "set es \<subseteq> set (p_egress p)" "length es \<le> length (p_egress p)"
  using assms
proof cases
  case work
  then show thesis by (rule that(1))
next
  case (inject raw res)
  from inject_fields [OF inject(2)] show thesis
  proof
    assume "p' = p"
    then show thesis
      by (intro that(2) [where xs = "p_ingress p" and es = "p_egress p" and c = "p_egress_open p" and b = "p_shutdown p"]) simp_all
  next
    assume "p_parse_up p \<and> has_room (p_ingress p) \<and> p' = p\<lparr>p_ingress := p_ingress p @ [raw]\<rparr>"
    with inject(1) show thesis
      by (intro that(2) [where xs = "p_ingress p @ [raw]" and es = "p_egress p" and c = "p_egress_open p" and b = "p_shutdown p"]) auto
  qed
next
  case (drain env r)
  then show thesis
    by (intro that(2) [where xs = "p_ingress p" and es = r and c = "p_egress_open p" and b = "p_shutdown p"]) auto
next
  case hangup
  then show thesis
    by (intro that(2) [where xs = "p_ingress p" and es = "[]" and c = False and b = "p_shutdown p"]) simp_all
next
  case signal
  then show thesis
    by (intro that(2) [where xs = "p_ingress p" and es = "p_egress p" and c = "p_egress_open p" and b = True]) (auto simp: signal_shutdown_def)
qed

lemma reachable_inv:
  assumes "reachable L cap may p0 p" "P (pipeline_run p0)"
    and "\<And>q q'. P q \<Longrightarrow> pwork L cap q q' \<Longrightarrow> P q'"
    and "\<And>q xs es c b. P q \<Longrightarrow>
      xs = p_ingress q \<or> (\<exists>raw. may raw \<and> has_room (p_ingress q) \<and> xs = p_ingress q @ [raw]) \<Longrightarrow>
      set es \<subseteq> set (p_egress q) \<Longrightarrow> length es \<le> length (p_egress q) \<Longrightarrow>
      P (q\<lparr>p_ingress := xs, p_egress := es, p_egress_open := c, p_shutdown := b\<rparr>)"
  shows "P p"
  using assms(1)
proof (induction rule: reachable.induct)
  case start
  show ?case by (rule assms(2))
next
  case (step p p')
  from step.hyps(2) show ?case
  proof (cases rule: pstep_cases)
    case work
    with step.IH assms(3) show ?thesis by blast
  next
    case (outside xs es c b)
    with step.IH assms(4) show ?thesis by blast
  qed
qed

lemma base_inv_reachable:
  assumes "reachable L cap may p0 p" "threads_inv (p_threads p0)"
  shows "base_inv p"
  using assms(1)
proof (rule reachable_inv)
  show "base_inv (pipeline_run p0)"
    using assms(2) by (simp add: base_inv_def pipeline_run_def)
qed (simp_all add: base_inv_work, simp add: base_inv_def)

text \<open>
  Per thread, every message handed over is started, queued, or was queued behind a message whose
  handling panicked.
\<close>

lemma no_message_lost:
  assumes "reachable L cap may p0 p" "threads_inv (p_threads p0)"
  shows "mset (for_key k (fo_in (p_fan p))) =
    mset (for_key k (fo_started (p_fan p))) + mset (queue_of (p_fan p) k) + mset (for_key k (fo_lost (p_fan p)))"
  using base_inv_reachable [OF assms] unfolding base_inv_def fifo_inv_def by blast

section \<open>The gates hold in the running pipeline\<close>

definition gate_inv :: "'s pipeline \<Rightarrow> bool" where
  "gate_inv p \<longleftrightarrow>
     (\<forall>vm \<in> set (p_validated p) \<union> set_option (p_validate_hold p).
        validate_msg (p_registry p) (vm_envelope vm) = Ok vm) \<and>
     (\<forall>rm \<in> set (p_routed p). admissible (p_registry p) rm) \<and>
     (\<forall>rm. p_route_hold p = Some (Inr rm) \<longrightarrow> admissible (p_registry p) rm) \<and>
     (\<forall>(k, rm) \<in> set (fo_in (p_fan p)). k = thread_of rm \<and> admissible (p_registry p) rm)"

lemma validate_msg_own: "validate_msg reg env = Ok vm \<Longrightarrow> validate_msg reg (vm_envelope vm) = Ok vm"
  by (auto simp: validate_msg_Ok)

lemma gate_inv_workers:
  assumes "gate_inv p" "p_registry p' = p_registry p" "p_validated p' = p_validated p"
    "p_validate_hold p' = p_validate_hold p" "p_routed p' = p_routed p" "p_route_hold p' = p_route_hold p"
    "fo_in (p_fan p') = fo_in (p_fan p)"
  shows "gate_inv p'"
  using assms by (simp add: gate_inv_def)

lemma gate_inv_work:
  assumes "pwork L cap p p'" "gate_inv p"
  shows "gate_inv p'"
  using assms(1)
proof cases
  case validate_recv
  with assms(2) show ?thesis
    by (auto simp: validate_recv_def gate_inv_def dest: validate_msg_own
        split: list.splits if_splits result.splits)
next
  case route_recv
  with assms(2) show ?thesis
    by (auto simp: route_recv_def gate_inv_def Let_def dest: route_admissible(1)
        split: list.splits if_splits prod.splits route_outcome.splits)
next
  case dispatch_recv
  with assms(2) show ?thesis
    by (auto simp: dispatch_recv_def gate_inv_def split: list.splits if_splits)
next
  case (worker_take i)
  then show ?thesis
    by - (rule gate_inv_workers [OF assms(2)]; auto simp: worker_take_Some dest: take_history)
next
  case (worker_run i)
  then show ?thesis
    by (cases rule: worker_run_Some) (rule gate_inv_workers [OF assms(2)]; auto dest: next_history)
next
  case (worker_respond fresh i)
  from worker_respond(2) show ?thesis
    by (cases rule: worker_respond_Some) (rule gate_inv_workers [OF assms(2)]; auto dest: next_history)
next
  case (worker_act i)
  then show ?thesis
    by (cases rule: worker_act_Some) (rule gate_inv_workers [OF assms(2)]; auto dest: next_history)
next
  case (worker_timeout i)
  then show ?thesis
    by - (rule gate_inv_workers [OF assms(2)]; auto simp: worker_timeout_def idle_timeout_Some)
next
  case (worker_reap i)
  then show ?thesis
    by - (rule gate_inv_workers [OF assms(2)]; auto simp: worker_reap_def reap_Some)
qed (use assms(2) in \<open>auto simp: gate_inv_def stage_defs split: outcome_splits\<close>)

lemma gate_inv_reachable:
  assumes "reachable L cap may p0 p"
  shows "gate_inv p"
  using assms
proof (rule reachable_inv)
  show "gate_inv (pipeline_run p0)"
    by (simp add: gate_inv_def pipeline_run_def fan_new_def)
qed (simp_all add: gate_inv_work, simp add: gate_inv_def)

lemma registry_reachable:
  assumes "reachable L cap may p0 p"
  shows "p_registry p = p_registry p0" "dispatch_ctx_of p = dispatch_ctx_of (pipeline_run p0)"
    "p_federation p = p_federation p0"
proof -
  have "p_registry p = p_registry p0 \<and> dispatch_ctx_of p = dispatch_ctx_of (pipeline_run p0) \<and>
      p_federation p = p_federation p0"
    using assms
    by (rule reachable_inv) (auto simp: pipeline_run_def pwork_config pwork_ctx dispatch_ctx_of_def)
  then show "p_registry p = p_registry p0" "dispatch_ctx_of p = dispatch_ctx_of (pipeline_run p0)"
    "p_federation p = p_federation p0" by simp_all
qed

text \<open>A message a worker takes up was handed over for the worker's thread.\<close>

lemma taken_was_handed:
  assumes "fan_inv f" "fifo_inv f" "take_message i f = Some (m, f')"
  shows "\<exists>w. tasks f i = Some w \<and> (wk_key w, m) \<in> set (fo_in f)"
proof -
  from assms(3) obtain w q where w: "tasks f i = Some w" "wk_queue w = m # q"
    by (auto simp: take_message_Some)
  have "m \<in># mset (queue_of f (wk_key w))"
    using queue_of_task [OF assms(1) w(1)] w(2) by simp
  then have "m \<in># mset (for_key (wk_key w) (fo_in f))"
    using assms(2) unfolding fifo_inv_def by (metis union_iff)
  with w(1) show ?thesis
    by (auto simp: for_key_def)
qed

lemma taken_admissible:
  assumes "reachable L cap may p0 p" "threads_inv (p_threads p0)"
    and "take_message i (p_fan p) = Some (rm, f')"
  shows "admissible (p_registry p0) rm"
    and "\<exists>w. tasks (p_fan p) i = Some w \<and> wk_key w = thread_of rm"
proof -
  from base_inv_reachable [OF assms(1,2)] have "fan_inv (p_fan p)" "fifo_inv (p_fan p)"
    by (simp_all add: base_inv_def)
  from taken_was_handed [OF this assms(3)] gate_inv_reachable [OF assms(1)]
  show "admissible (p_registry p0) rm" "\<exists>w. tasks (p_fan p) i = Some w \<and> wk_key w = thread_of rm"
    using registry_reachable(1) [OF assms(1)] by (auto simp: gate_inv_def)
qed

section \<open>Channels stay within their buffers\<close>

definition room_inv :: "nat \<Rightarrow> 's pipeline \<Rightarrow> bool" where
  "room_inv cap p \<longleftrightarrow> length (p_ingress p) \<le> CHANNEL_BUFFER \<and> length (p_parsed p) \<le> CHANNEL_BUFFER \<and>
     length (p_validated p) \<le> CHANNEL_BUFFER \<and> length (p_routed p) \<le> CHANNEL_BUFFER \<and>
     length (p_egress p) \<le> cap"

lemma room_inv_work: "pwork L cap p p' \<Longrightarrow> room_inv cap p \<Longrightarrow> room_inv cap p'"
  by (erule pworkE; auto simp: room_inv_def has_room_def stage_defs worker_defs Let_def split: outcome_splits)

lemma room_inv_reachable:
  assumes "reachable L cap may p0 p" "p_egress p0 = []"
  shows "room_inv cap p"
  using assms(1)
proof (rule reachable_inv)
  show "room_inv cap (pipeline_run p0)"
    using assms(2) by (simp add: room_inv_def pipeline_run_def)
qed (simp_all add: room_inv_work, auto simp: room_inv_def has_room_def)

end
