(* ===== verification/Envelope_Laws.thy ===== *)
theory Envelope_Laws
  imports Pipeline_Laws
begin

text \<open>
  Properties of every envelope the running pipeline holds.  A property that decoding gives to
  whatever enters, and that the envelopes of a response inherit from the message answered, holds
  of everything in the stages, in the queues of the workers and in a worker's hands.
\<close>

section \<open>What the workers are about to do\<close>

definition busy_all :: "('a \<Rightarrow> bool) \<Rightarrow> ('m, 'a) fan_out \<Rightarrow> bool" where
  "busy_all Q f \<longleftrightarrow> (\<forall>i w as. tasks f i = Some w \<longrightarrow> wk_state w = Busy as \<longrightarrow> list_all Q as)"

lemma busy_all_new [simp]: "busy_all Q fan_new"
  by (simp add: busy_all_def fan_new_def)

lemma busy_all_task: "busy_all Q f \<Longrightarrow> tasks f i = Some w \<Longrightarrow> wk_state w = Busy as \<Longrightarrow> list_all Q as"
  by (simp add: busy_all_def)

lemma busy_all_update:
  assumes "busy_all Q f" "tasks f' = (tasks f)(i := x)"
    and "\<And>w as. x = Some w \<Longrightarrow> wk_state w = Busy as \<Longrightarrow> list_all Q as"
  shows "busy_all Q f'"
  using assms unfolding busy_all_def by simp

lemma busy_all_handoff: "busy_all Q f \<Longrightarrow> busy_all Q (handoff key m f)"
proof (cases rule: handoff_cases [where f = f and key = key and m = m])
  case (live i w)
  assume "busy_all Q f"
  then show ?thesis
    by (rule busy_all_update [where i = i and x = "Some (w\<lparr>wk_queue := wk_queue w @ [m]\<rparr>)"])
      (use live \<open>busy_all Q f\<close> in \<open>auto intro: busy_all_task\<close>)
next
  case fresh
  assume "busy_all Q f"
  then show ?thesis
    by (rule busy_all_update [where i = "next_task f"]) (auto simp: fresh(2))
qed

lemma busy_all_take: "take_message i f = Some (m, f') \<Longrightarrow> busy_all Q f \<Longrightarrow> busy_all Q f'"
  by (auto simp: take_message_Some intro: busy_all_update)

lemma busy_all_set_actions: "busy_all Q f \<Longrightarrow> list_all Q as \<Longrightarrow> busy_all Q (set_actions i as f)"
  by (auto simp: set_actions_def intro: busy_all_update split: option.split)

lemma busy_all_next:
  assumes "next_action i f = Some (a, f')" "busy_all Q f"
  shows "busy_all Q f'" "a = Some x \<Longrightarrow> Q x"
proof -
  from assms(1) obtain w st where w: "tasks f i = Some w" and f': "tasks f' = (tasks f)(i \<mapsto> w\<lparr>wk_state := st\<rparr>)"
    and c: "case a of Some x \<Rightarrow> \<exists>as. wk_state w = Busy (x # as) \<and> st = Busy as
      | None \<Rightarrow> wk_state w = Busy [] \<and> st = Waiting"
    by (auto simp: next_action_Some)
  show "busy_all Q f'"
    by (rule busy_all_update [OF assms(2) f'])
      (use c busy_all_task [OF assms(2) w] in \<open>auto split: option.splits\<close>)
  show "Q x" if "a = Some x"
    using c that busy_all_task [OF assms(2) w] by auto
qed

lemma busy_all_idle: "idle_timeout i f = Some f' \<Longrightarrow> busy_all Q f \<Longrightarrow> busy_all Q f'"
  by (auto simp: idle_timeout_Some intro: busy_all_update)

lemma busy_all_reap: "reap i f = Some f' \<Longrightarrow> busy_all Q f \<Longrightarrow> busy_all Q f'"
  by (auto simp: reap_Some intro: busy_all_update)

lemma busy_all_dies: "busy_all Q f \<Longrightarrow> busy_all Q (worker_dies i f)"
  by (auto simp: worker_dies_def intro: busy_all_update split: option.split)

section \<open>Envelopes in the pipeline\<close>

definition raw_holds :: "lib \<Rightarrow> (envelope \<Rightarrow> bool) \<Rightarrow> u8 list \<Rightarrow> bool" where
  "raw_holds L P raw \<longleftrightarrow> (\<forall>env. decode_envelope L raw = Ok env \<longrightarrow> P env)"

fun action_holds :: "lib \<Rightarrow> 's listener_registry \<Rightarrow> (envelope \<Rightarrow> bool) \<Rightarrow> action \<Rightarrow> bool" where
  "action_holds L reg P (ARun msg) \<longleftrightarrow> P (rm_envelope msg) \<and> admissible reg msg"
| "action_holds L reg P (ARespond msg r) \<longleftrightarrow> P (rm_envelope msg) \<and> admissible reg msg"
| "action_holds L reg P (ASend raw) = raw_holds L P raw"
| "action_holds L reg P _ = True"

text \<open>The envelopes of a response inherit the property from the message answered, which passed the gates.\<close>

definition answers_keep :: "lib \<Rightarrow> (envelope \<Rightarrow> bool) \<Rightarrow> 's dispatch_ctx \<Rightarrow> bool" where
  "answers_keep L P dx \<longleftrightarrow>
     (\<forall>threads fresh msg r. P (rm_envelope msg) \<longrightarrow> admissible (dx_registry dx) msg \<longrightarrow>
        (\<forall>raw \<in> set (sends (snd (respond L dx threads fresh msg r))). raw_holds L P raw))"

definition staged :: "'s pipeline \<Rightarrow> envelope set" where
  "staged p = set (p_parsed p) \<union> set_option (p_parse_hold p) \<union> set (p_egress p) \<union>
     vm_envelope ` (set (p_validated p) \<union> set_option (p_validate_hold p)) \<union>
     (case p_route_hold p of None \<Rightarrow> {} | Some (Inl env) \<Rightarrow> {env} | Some (Inr rm) \<Rightarrow> {rm_envelope rm}) \<union>
     rm_envelope ` set (p_routed p)"

definition env_inv :: "lib \<Rightarrow> (envelope \<Rightarrow> bool) \<Rightarrow> 's pipeline \<Rightarrow> bool" where
  "env_inv L P p \<longleftrightarrow>
     (\<forall>raw \<in> set (p_ingress p). raw_holds L P raw) \<and> (\<forall>env \<in> staged p. P env) \<and>
     busy_all (action_holds L (p_registry p) P) (p_fan p) \<and> (\<forall>x \<in> set (fo_in (p_fan p)). P (rm_envelope (snd x)))"

lemma env_inv_stages:
  assumes "env_inv L P p" "p_fan p' = p_fan p" "p_registry p' = p_registry p" "set (p_ingress p') \<subseteq> set (p_ingress p)"
    and "\<And>env. env \<in> staged p' \<Longrightarrow> env \<in> staged p \<or> P env"
  shows "env_inv L P p'"
  using assms unfolding env_inv_def by auto

lemma env_inv_fan:
  assumes "env_inv L P p" "p_registry p' = p_registry p" "busy_all (action_holds L (p_registry p) P) (p_fan p')"
    and "fo_in (p_fan p') = fo_in (p_fan p)" "staged p' = staged p"
    and "\<And>raw. raw \<in> set (p_ingress p') \<Longrightarrow> raw \<in> set (p_ingress p) \<or> raw_holds L P raw"
  shows "env_inv L P p'"
  using assms unfolding env_inv_def by auto

lemma staged_workers [simp]:
  "staged (p\<lparr>p_fan := f\<rparr>) = staged p" "staged (p\<lparr>p_host := s\<rparr>) = staged p"
  "staged (p\<lparr>p_threads := t\<rparr>) = staged p" "staged (p\<lparr>p_ingress := xs\<rparr>) = staged p"
  "staged (p\<lparr>p_events := es\<rparr>) = staged p"
  by (simp_all add: staged_def)

lemma outputs_hold:
  "list_all is_output as \<Longrightarrow> \<forall>raw \<in> set (sends as). raw_holds L P raw \<Longrightarrow> list_all (action_holds L reg P) as"
  by (induction as rule: sends.induct) auto

lemma after_handler_holds:
  "P (rm_envelope msg) \<Longrightarrow> admissible reg msg \<Longrightarrow> list_all (action_holds L reg P) (after_handler dx msg result)"
  by (auto simp: after_handler_parts close_edge_def split: option.split result.split)

text \<open>A message in a worker's hands was handed over, so the property holds of it.\<close>

lemma env_inv_taken:
  assumes "base_inv p" "gate_inv p" "env_inv L P p" "take_message i (p_fan p) = Some (rm, fan1)"
  shows "P (rm_envelope rm)" "admissible (p_registry p) rm"
  using taken_was_handed [OF _ _ assms(4)] assms(1,2,3) unfolding base_inv_def gate_inv_def env_inv_def by fastforce+

lemma env_inv_workers:
  assumes "env_inv L P p" "base_inv p" "gate_inv p" "answers_keep L P (dispatch_ctx_of p)"
  shows "worker_take i p = Some p' \<Longrightarrow> env_inv L P p'"
    and "worker_run i p = Some p' \<Longrightarrow> env_inv L P p'"
    and "worker_respond L fresh i p = Some p' \<Longrightarrow> env_inv L P p'"
    and "worker_act i p = Some p' \<Longrightarrow> env_inv L P p'"
    and "worker_timeout i p = Some p' \<Longrightarrow> env_inv L P p'"
    and "worker_reap i p = Some p' \<Longrightarrow> env_inv L P p'"
proof -
  have busy: "busy_all (action_holds L (p_registry p) P) (p_fan p)"
    using assms(1) by (simp add: env_inv_def)
  note next_ok = busy_all_next [OF _ busy]
  show "env_inv L P p'" if "worker_take i p = Some p'"
  proof -
    from that obtain rm fan1 where t: "take_message i (p_fan p) = Some (rm, fan1)"
      and p': "p' = p\<lparr>p_fan := set_actions i [ARun rm] fan1\<rparr>"
      by (auto simp: worker_take_Some)
    from env_inv_taken [OF assms(2,3,1) t] show ?thesis
      unfolding p' by - (rule env_inv_fan [OF assms(1)];
        simp add: busy_all_set_actions busy_all_take [OF t busy] take_history [OF t])
  qed
  show "env_inv L P p'" if "worker_run i p = Some p'"
    using that
  proof (cases rule: worker_run_Some)
    case (1 rm fan1 fan2 s' result)
    have "P (rm_envelope rm)" "admissible (p_registry p) rm" using next_ok(2) [OF 1(1)] by fastforce+
    with 1(4) next_ok(1) [OF 1(1)] have "busy_all (action_holds L (p_registry p) P) fan2" "fo_in fan2 = fo_in (p_fan p)"
      using next_history [OF 1(1)] by (auto intro: busy_all_dies busy_all_set_actions after_handler_holds)
    with 1(2) show ?thesis
      by - (rule env_inv_fan [OF assms(1)]; simp)
  qed
  show "env_inv L P p'" if "worker_respond L fresh i p = Some p'"
    using that
  proof (cases rule: worker_respond_Some)
    case (1 rm r fan1 threads' acts)
    have "P (rm_envelope rm)" "admissible (dx_registry (dispatch_ctx_of p)) rm"
      using next_ok(2) [OF 1(1)] by (fastforce simp: dispatch_ctx_of_def)+
    with assms(4) 1(2) have "\<forall>raw \<in> set (sends acts). raw_holds L P raw"
      unfolding answers_keep_def by (metis snd_conv)
    with respond_outputs(1) [OF 1(2)] have "list_all (action_holds L (p_registry p) P) acts"
      by (rule outputs_hold)
    with 1(3) next_ok(1) [OF 1(1)] next_history [OF 1(1)] show ?thesis
      by - (rule env_inv_fan [OF assms(1)]; simp add: busy_all_set_actions)
  qed
  show "env_inv L P p'" if "worker_act i p = Some p'"
    using that
  proof (cases rule: worker_act_Some)
    case (1 a fan1 xs es)
    have "raw_holds L P raw" if "a = Some (ASend raw)" for raw
      using next_ok(2) [OF 1(1) that] by simp
    with 1 next_ok(1) [OF 1(1)] next_history [OF 1(1)] show ?thesis
      by - (rule env_inv_fan [OF assms(1)]; auto)
  qed
  show "env_inv L P p'" if "worker_timeout i p = Some p'"
  proof -
    from that obtain f where f: "idle_timeout i (p_fan p) = Some f" "p' = p\<lparr>p_fan := f\<rparr>"
      by (auto simp: worker_timeout_def)
    from f(1) have "fo_in f = fo_in (p_fan p)" by (auto simp: idle_timeout_Some)
    with f(2) busy_all_idle [OF f(1) busy] show ?thesis
      by - (rule env_inv_fan [OF assms(1)]; simp)
  qed
  show "env_inv L P p'" if "worker_reap i p = Some p'"
  proof -
    from that obtain f where f: "reap i (p_fan p) = Some f" "p' = p\<lparr>p_fan := f\<rparr>"
      by (auto simp: worker_reap_def)
    from f(1) have "fo_in f = fo_in (p_fan p)" by (auto simp: reap_Some)
    with f(2) busy_all_reap [OF f(1) busy] show ?thesis
      by - (rule env_inv_fan [OF assms(1)]; simp)
  qed
qed

section \<open>The stages\<close>

lemma env_inv_parse:
  assumes "env_inv L P p" "parse_recv L p = Some p'"
  shows "env_inv L P p'"
proof -
  from assms(2) obtain raw r where ing: "p_ingress p = raw # r" "p_parse_hold p = None"
    and p': "p' = (case parse_msg_stage L raw of Ok env \<Rightarrow> p\<lparr>p_ingress := r, p_parse_hold := Some env\<rparr>
       | Err e \<Rightarrow> p\<lparr>p_ingress := r\<rparr> | Panic \<Rightarrow> p\<lparr>p_ingress := [], p_parse_up := False\<rparr>)"
    by (auto simp: parse_recv_Some)
  have raw: "raw_holds L P raw"
    using assms(1) ing(1) by (simp add: env_inv_def)
  show ?thesis
  proof (cases "decode_envelope L raw")
    case (Ok env)
    with raw have "P env" by (simp add: raw_holds_def)
    with Ok p' ing show ?thesis
      by - (rule env_inv_stages [OF assms(1)]; auto simp: parse_msg_stage_def staged_def)
  next
    case (Err e)
    with p' ing show ?thesis
      by - (rule env_inv_stages [OF assms(1)]; auto simp: parse_msg_stage_def)
  next
    case Panic
    with p' show ?thesis
      by - (rule env_inv_stages [OF assms(1)]; simp add: parse_msg_stage_def staged_def)
  qed
qed

lemma env_inv_validate:
  assumes "env_inv L P p" "validate_recv p = Some p'"
  shows "env_inv L P p'"
proof -
  from assms(2) obtain env r where h: "p_parsed p = env # r" "p_validate_hold p = None"
    and p': "p' = p\<lparr>p_parsed := r, p_validate_hold := Some (case validate_msg (p_registry p) env of Ok vm \<Rightarrow> vm)\<rparr> \<and>
        is_ok (validate_msg (p_registry p) env) \<or>
      p' = p\<lparr>p_parsed := r\<rparr> \<and> \<not> is_ok (validate_msg (p_registry p) env)"
    by (auto simp: validate_recv_Some)
  show ?thesis
  proof (cases "validate_msg (p_registry p) env")
    case (Ok vm)
    then have "vm_envelope vm = env" by (auto simp: validate_msg_Ok)
    with Ok p' h show ?thesis
      by - (rule env_inv_stages [OF assms(1)]; auto simp: staged_def)
  qed (use p' h in \<open>auto simp: staged_def intro: env_inv_stages [OF assms(1)]\<close>)
qed

lemma env_inv_route:
  assumes "env_inv L P p" "route_recv p = Some p'"
  shows "env_inv L P p'"
proof -
  from assms(2) obtain vm r where h: "p_validated p = vm # r" "p_route_hold p = None" "p_route_up p"
    by (auto dest!: route_recv_Some)
  obtain out threads' where out: "route_msg (p_registry p) (p_federation p) (p_threads p) vm = (out, threads')"
    by fastforce
  with assms(2) h have p': "p' = (case out of
      Egress env \<Rightarrow> p\<lparr>p_validated := r, p_threads := threads', p_route_hold := Some (Inl env)\<rparr>
    | Routed rm \<Rightarrow> p\<lparr>p_validated := r, p_threads := threads', p_route_hold := Some (Inr rm)\<rparr>
    | Dropped e \<Rightarrow> p\<lparr>p_validated := r, p_threads := threads'\<rparr>)"
    by (cases out) (simp_all add: route_recv_def)
  show ?thesis
  proof (cases out)
    case (Egress env)
    then have "env = vm_envelope vm" using out by (auto dest: route_msg_Egress)
    with p' Egress h show ?thesis
      by - (rule env_inv_stages [OF assms(1)]; auto simp: staged_def)
  next
    case (Routed rm)
    then have "rm_envelope rm = vm_envelope vm" using out by (auto dest: route_msg_Routed(1))
    with p' Routed h show ?thesis
      by - (rule env_inv_stages [OF assms(1)]; auto simp: staged_def)
  next
    case (Dropped e)
    with p' h show ?thesis
      by - (rule env_inv_stages [OF assms(1)]; auto simp: staged_def)
  qed
qed

lemma env_inv_dispatch:
  assumes "env_inv L P p" "dispatch_recv p = Some p'"
  shows "env_inv L P p'"
proof -
  from assms(2) obtain rm r where h: "p_routed p = rm # r"
    and p': "p' = p\<lparr>p_routed := r, p_fan := handoff (thread_of rm) rm (p_fan p)\<rparr>"
    by (auto simp: dispatch_recv_Some)
  have "staged p' \<subseteq> staged p" "rm_envelope rm \<in> staged p"
    using h by (auto simp: p' staged_def)
  with assms(1) show ?thesis
    by (auto simp: env_inv_def p' busy_all_handoff)
qed

lemma env_inv_work:
  assumes "pwork L cap p p'" "env_inv L P p" "base_inv p" "gate_inv p" "answers_keep L P (dispatch_ctx_of p)"
  shows "env_inv L P p'"
  using assms(1)
proof cases
  case parse_recv
  with assms(2) show ?thesis by (rule env_inv_parse)
next
  case parse_send
  then show ?thesis
    by - (rule env_inv_stages [OF assms(2)]; auto simp: parse_send_Some staged_def)
next
  case parse_shutdown
  then show ?thesis
    by - (rule env_inv_stages [OF assms(2)]; auto simp: parse_shutdown_Some staged_def)
next
  case validate_recv
  with assms(2) show ?thesis by (rule env_inv_validate)
next
  case validate_send
  then show ?thesis
    by - (rule env_inv_stages [OF assms(2)]; auto simp: validate_send_Some staged_def)
next
  case validate_end
  then show ?thesis
    by - (rule env_inv_stages [OF assms(2)]; auto simp: validate_end_Some staged_def)
next
  case route_recv
  with assms(2) show ?thesis by (rule env_inv_route)
next
  case route_send
  then show ?thesis
    by - (rule env_inv_stages [OF assms(2)]; auto simp: route_send_Some staged_def)
next
  case route_end
  then show ?thesis
    by - (rule env_inv_stages [OF assms(2)]; auto simp: route_end_Some staged_def)
next
  case dispatch_recv
  with assms(2) show ?thesis by (rule env_inv_dispatch)
next
  case dispatch_end
  then show ?thesis
    by - (rule env_inv_stages [OF assms(2)]; auto simp: dispatch_end_Some staged_def)
qed (use env_inv_workers [OF assms(2-5)] in blast)+

lemma env_inv_reachable:
  assumes "reachable L cap may p0 p" "\<And>raw. may raw \<Longrightarrow> raw_holds L P raw"
    and "threads_inv (p_threads p0)" "p_egress p0 = []" "answers_keep L P (dispatch_ctx_of (pipeline_run p0))"
  shows "base_inv p \<and> gate_inv p \<and> env_inv L P p"
proof -
  let ?I = "\<lambda>q. base_inv q \<and> gate_inv q \<and> env_inv L P q \<and> dispatch_ctx_of q = dispatch_ctx_of (pipeline_run p0)"
  have "?I p"
    using assms(1)
  proof (rule reachable_inv)
    show "?I (pipeline_run p0)"
      using assms(3,4) by (simp add: base_inv_def gate_inv_def env_inv_def staged_def pipeline_run_def) (simp add: fan_new_def)
  next
    fix q q' assume I: "?I q" and w: "pwork L cap q q'"
    with env_inv_work [OF w] base_inv_work [OF w] gate_inv_work [OF w] pwork_ctx [OF w] assms(5) show "?I q'" by simp
  next
    fix q :: "'a pipeline" and xs es c b
    assume I: "?I q" and ing: "xs = p_ingress q \<or> (\<exists>raw. may raw \<and> has_room (p_ingress q) \<and> xs = p_ingress q @ [raw])"
      and "set es \<subseteq> set (p_egress q)"
    let ?q = "q\<lparr>p_ingress := xs, p_egress := es, p_egress_open := c, p_shutdown := b\<rparr>"
    have "staged ?q \<subseteq> staged q"
      using \<open>set es \<subseteq> set (p_egress q)\<close> by (auto simp: staged_def)
    with I ing assms(2) show "?I ?q"
      by (auto simp: base_inv_def gate_inv_def env_inv_def dispatch_ctx_of_def)
  qed
  then show ?thesis by simp
qed

end
