(* ===== verification/Decode_Laws.thy ===== *)
theory Decode_Laws
  imports Codec_Laws
begin

text \<open>
  What decoding keeps of an envelope whatever its strings are.  If its encoding decodes at all, the
  provenance is the one encoded; so are an origin and a destination whose texts survive trimming.
\<close>

section \<open>Decoding keeps the place\<close>

lemma read_scalar_place:
  "read_scalar L (items_of [XText x, XEnd ''v''] @ rest) s = Ok (t, r) \<Longrightarrow> r = rest"
  by (auto simp: result_iffs split: if_splits)

lemma scalar_place:
  assumes "escape_laws L" "attr_ok kind" "kind \<noteq> ''rec''" "kind \<noteq> ''seq''"
    and "expect_value L (items_of (scalar_events L kind t) @ rest) = Ok (w, r)"
  shows "r = rest"
  using assms(2-) attr_read [OF assms(1,2), of "''k''" "[]"]
  by (auto simp: scalar_events_def expect_value.simps parse_value.simps result_iffs
      dest: read_scalar_place split: if_splits)

lemma value_place:
  assumes "escape_laws L"
  shows "expect_value L (items_of (value_events L v) @ rest) = Ok (w, r) \<Longrightarrow> r = rest"
    and "rec_loop L acc (items_of (fields_events L fs @ [XEnd ''v'']) @ rest) = Ok (w, r) \<Longrightarrow> r = rest"
    and "seq_loop L vacc (items_of (items_events L vs @ [XEnd ''v'']) @ rest) = Ok (w, r) \<Longrightarrow> r = rest"
  using assms
proof (induction L v and L fs and L vs arbitrary: rest w r and acc rest w r and vacc rest w r
    rule: value_events_fields_events_items_events.induct)
  case (1 L fs)
  then show ?case
    by (simp add: expect_value.simps attr_read parse_value.simps)
next
  case (2 L vs)
  then show ?case
    by (simp add: expect_value.simps attr_read parse_value.simps)
next
  case (9 L)
  then show ?case
    by (simp add: expect_value.simps)
next
  case (10 L)
  then show ?case by (simp add: rec_loop.simps)
next
  case (11 L n v fs)
  from 11(3) obtain u r1 r2 where v: "expect_value L (items_of (value_events L v) @
        Inr (XEnd ''f'') # items_of (fields_events L fs @ [XEnd ''v'']) @ rest) = Ok (u, r1)"
    and e: "expect_end r1 ''f'' = Ok r2"
    and fs: "rec_loop L (acc @ [Field (attr_or_default [(''n'', xml_escape L n)] ''n'') u]) r2 = Ok (w, r)"
    by (auto simp: rec_loop.simps [of L acc "_ # _"] result_iffs)
  from 11(1) [OF v 11(4)] e have "r2 = items_of (fields_events L fs @ [XEnd ''v'']) @ rest"
    by simp
  with 11(2) [OF _ 11(4)] fs show ?case by blast
next
  case (12 L)
  then show ?case by (simp add: seq_loop.simps)
next
  case (13 L v vs)
  let ?rest = "items_of (items_events L vs @ [XEnd ''v'']) @ rest"
  obtain ev es as where hd: "trim_events (value_events L v) = ev # es"
    "ev = XStart ''v'' as \<or> ev = XEmpty ''v'' as"
    using value_events_hd by blast
  have split: "items_of (items_events L (v # vs) @ [XEnd ''v'']) @ rest = Inr ev # map Inr es @ ?rest"
    by (simp add: hd(1))
  from 13(3) hd(2) have "\<exists>u r1. expect_value L (Inr ev # map Inr es @ ?rest) = Ok (u, r1)"
    unfolding split
    by (auto simp: seq_loop.simps [of L vacc "_ # _"] expect_value.simps attr_or_default_def result_iffs)
  then obtain u r1 where u: "expect_value L (Inr ev # map Inr es @ ?rest) = Ok (u, r1)" by blast
  then have "r1 = ?rest"
    using 13(1) [of ?rest u r1] 13(4) hd(1) by simp
  moreover have "seq_loop L (vacc @ [u]) r1 = Ok (w, r)"
    using 13(3) seq_loop_item [OF u hd(2), of vacc] unfolding split by simp
  ultimately show ?case
    using 13(2) [OF _ 13(4)] by blast
qed (auto dest!: scalar_place [rotated 4])

section \<open>Decoding keeps the metadata\<close>

definition addr_ok :: "address \<Rightarrow> bool" where
  "addr_ok a \<longleftrightarrow> wf_address a \<and> meta_text (address_display a)"

text \<open>The fields other than the one of the element read are kept.\<close>

definition same_but :: "string \<Rightarrow> meta_fields \<Rightarrow> meta_fields \<Rightarrow> bool" where
  "same_but tag mf mf' \<longleftrightarrow> (tag \<noteq> ''from'' \<longrightarrow> mf_from mf' = mf_from mf) \<and> (tag \<noteq> ''to'' \<longrightarrow> mf_to mf' = mf_to mf) \<and>
     (tag \<noteq> ''provenance'' \<longrightarrow> mf_provenance mf' = mf_provenance mf)"

lemma same_but_refl [simp]: "same_but tag mf mf"
  by (simp add: same_but_def)

lemma set_meta_field_same: "set_meta_field tag s mf = Ok mf' \<Longrightarrow> same_but tag mf mf'"
  by (auto simp: set_meta_field_def same_but_def result_iffs split: if_splits)

lemma read_meta_step:
  assumes "xml_laws L" "tag \<noteq> ''meta''" "read_meta L field mf (items_of (text_events L tag t) @ rest) = Ok x"
  shows "\<exists>mf'. read_meta L None mf' rest = Ok x \<and> same_but tag mf mf' \<and> (meta_text t \<longrightarrow> set_meta_field tag t mf = Ok mf')"
proof (cases "meta_text t")
  case True
  with assms read_meta_text [OF assms(1) True assms(2), of field mf rest] show ?thesis
    by (auto simp: result_iffs dest: set_meta_field_same)
next
  case False
  with assms(2,3) show ?thesis
    by (auto simp: text_events_def result_iffs dest: set_meta_field_same split: if_splits)
qed

lemma read_meta_fields:
  assumes "xml_laws L"
    and "read_meta L None mf (items_of (meta_events L m @ [XEnd ''meta'']) @ rest) = Ok (mf', r)"
    and "mf_provenance mf = EMPTY" "mf_to mf = None"
  shows "r = rest \<and> mf_provenance mf' = m_provenance m \<and> (addr_ok (m_from m) \<longrightarrow> mf_from mf' = Some (m_from m)) \<and>
    (pred_option addr_ok (m_to m) \<longrightarrow> mf_to mf' = m_to m)"
proof -
  let ?prov = "if prov_is_empty (m_provenance m) then []
      else text_events L ''provenance'' (prov_to_hex (m_provenance m))"
  let ?tail = "items_of (?prov @ [XEnd ''meta'']) @ rest"
  let ?to = "case m_to m of Some to \<Rightarrow> text_events L ''to'' (address_display to) | None \<Rightarrow> []"
  let ?thread = "items_of (text_events L ''thread'' (m_thread m)) @ ?tail"
  from assms(2) have "read_meta L None mf (items_of (text_events L ''from'' (address_display (m_from m))) @
      items_of ?to @ ?thread) = Ok (mf', r)"
    by (simp add: meta_events_def)
  from read_meta_step [OF assms(1) _ this] obtain mf1 where s1: "same_but ''from'' mf mf1"
    and 1: "read_meta L None mf1 (items_of ?to @ ?thread) = Ok (mf', r)"
    and "meta_text (address_display (m_from m)) \<longrightarrow> set_meta_field ''from'' (address_display (m_from m)) mf = Ok mf1" by auto
  then have f1: "addr_ok (m_from m) \<longrightarrow> mf_from mf1 = Some (m_from m)"
    by (auto simp: addr_ok_def set_meta_field_simps)
  have "\<exists>mf2. same_but ''to'' mf1 mf2 \<and> (pred_option addr_ok (m_to m) \<longrightarrow> mf_to mf2 = m_to m) \<and>
      read_meta L None mf2 ?thread = Ok (mf', r)"
  proof (cases "m_to m")
    case None
    with 1 s1 assms(4) show ?thesis
      by (intro exI [of _ mf1]) (simp add: same_but_def)
  next
    case (Some a)
    with 1 have "read_meta L None mf1 (items_of (text_events L ''to'' (address_display a)) @ ?thread) = Ok (mf', r)" by simp
    from read_meta_step [OF assms(1) _ this] obtain mf2 where "same_but ''to'' mf1 mf2"
      "read_meta L None mf2 ?thread = Ok (mf', r)"
      "meta_text (address_display a) \<longrightarrow> set_meta_field ''to'' (address_display a) mf1 = Ok mf2" by auto
    with Some show ?thesis
      by (intro exI [of _ mf2]) (auto simp: addr_ok_def set_meta_field_simps)
  qed
  then obtain mf2 where s2: "same_but ''to'' mf1 mf2" and t2: "pred_option addr_ok (m_to m) \<longrightarrow> mf_to mf2 = m_to m"
    and 2: "read_meta L None mf2 ?thread = Ok (mf', r)" by blast
  from read_meta_step [OF assms(1) _ 2] obtain mf3 where s3: "same_but ''thread'' mf2 mf3"
    and 3: "read_meta L None mf3 ?tail = Ok (mf', r)" by auto
  from s1 s2 s3 f1 t2 assms(3) have mf3: "mf_provenance mf3 = EMPTY" "addr_ok (m_from m) \<longrightarrow> mf_from mf3 = Some (m_from m)"
      "pred_option addr_ok (m_to m) \<longrightarrow> mf_to mf3 = m_to m"
    by (simp_all add: same_but_def)
  show ?thesis
  proof (cases "prov_is_empty (m_provenance m)")
    case True
    with 3 mf3 show ?thesis by (simp add: prov_is_empty_iff)
  next
    case False
    with 3 mf3 show ?thesis
      by (auto simp: read_meta_text [OF assms(1) hex_meta_text] set_meta_field_simps)
  qed
qed

abbreviation no_meta :: meta_fields where
  "no_meta \<equiv> \<lparr>mf_from = None, mf_to = None, mf_thread = None, mf_provenance = EMPTY\<rparr>"

lemma decode_envelope_Ok:
  assumes "decode_envelope L raw = Ok env"
  shows "\<exists>mf pl. decode_loop L no_meta None False (xml_read L raw) = Ok (mf, Some pl, True) \<and>
    mf_from mf = Some (m_from (e_meta env)) \<and> m_to (e_meta env) = mf_to mf \<and>
    mf_thread mf = Some (m_thread (e_meta env)) \<and> m_provenance (e_meta env) = mf_provenance mf \<and>
    e_payload env = pl"
  using assms by (fastforce simp: decode_envelope_def result_iffs split: if_splits prod.splits)

lemma decode_keeps:
  assumes "xml_laws L" "escape_laws L"
    and "decode_envelope L (bytes_of L (envelope_events L env)) = Ok env'"
  shows "m_provenance (e_meta env') = m_provenance (e_meta env)"
    and "addr_ok (m_from (e_meta env)) \<Longrightarrow> m_from (e_meta env') = m_from (e_meta env)"
    and "pred_option addr_ok (m_to (e_meta env)) \<Longrightarrow> m_to (e_meta env') = m_to (e_meta env)"
    and "attr_ok (pl_tag (e_payload env)) \<Longrightarrow> pl_tag (e_payload env') = pl_tag (e_payload env)"
proof -
  let ?tag = "[(''tag'', xml_escape L (pl_tag (e_payload env)))]"
  let ?payload = "items_of (XStart ''payload'' ?tag #
         value_events L (pl_value (e_payload env)) @ [XEnd ''payload'', XEnd ''message''])"
  have "xml_read L (bytes_of L (envelope_events L env)) = items_of (envelope_events L env)"
    by (rule encode_read [OF assms(1) encode_envelope_bytes [OF assms(1)]])
  with decode_envelope_Ok [OF assms(3)] obtain mf pl where
    d: "decode_loop L no_meta None False (items_of (envelope_events L env)) = Ok (mf, Some pl, True)"
    and p: "m_provenance (e_meta env') = mf_provenance mf" "mf_from mf = Some (m_from (e_meta env'))"
      "m_to (e_meta env') = mf_to mf" "e_payload env' = pl"
    by metis
  from d obtain mf1 r1 where m: "read_meta L None no_meta
      (items_of (meta_events L (e_meta env) @ [XEnd ''meta'']) @ ?payload) = Ok (mf1, r1)"
    and rest: "decode_loop L mf1 None True r1 = Ok (mf, Some pl, True)"
    by (auto simp: envelope_events_def decode_loop.simps [of _ _ _ _ "_ # _"] result_iffs)
  from read_meta_fields [OF assms(1) m] have r1: "r1 = ?payload" and mf1: "mf_provenance mf1 = m_provenance (e_meta env)"
    "addr_ok (m_from (e_meta env)) \<longrightarrow> mf_from mf1 = Some (m_from (e_meta env))"
    "pred_option addr_ok (m_to (e_meta env)) \<longrightarrow> mf_to mf1 = m_to (e_meta env)"
    by auto
  from rest r1 obtain v r2 r3 where v: "expect_value L (items_of (value_events L (pl_value (e_payload env))) @
        [Inr (XEnd ''payload''), Inr (XEnd ''message'')]) = Ok (v, r2)"
    and e: "expect_end r2 ''payload'' = Ok r3"
    and l: "decode_loop L mf1 (Some \<lparr>pl_tag = attr_or_default ?tag ''tag'', pl_value = v\<rparr>) True r3 = Ok (mf, Some pl, True)"
    by (auto simp: decode_loop.simps [of _ _ _ _ "_ # _"] result_iffs)
  from value_place(1) [OF assms(2) v] e have "r3 = [Inr (XEnd ''message'')]" by simp
  with l have "mf = mf1" and pl: "pl = \<lparr>pl_tag = attr_or_default ?tag ''tag'', pl_value = v\<rparr>"
    by (auto simp: decode_loop.simps [of _ _ _ _ "_ # _"])
  with p mf1 show "m_provenance (e_meta env') = m_provenance (e_meta env)"
    "addr_ok (m_from (e_meta env)) \<Longrightarrow> m_from (e_meta env') = m_from (e_meta env)"
    "pred_option addr_ok (m_to (e_meta env)) \<Longrightarrow> m_to (e_meta env') = m_to (e_meta env)"
    by simp_all
  show "pl_tag (e_payload env') = pl_tag (e_payload env)" if "attr_ok (pl_tag (e_payload env))"
    using attr_read [OF assms(2) that] by (simp add: p pl)
qed

end
