(* ===== verification/Taint_Laws.thy ===== *)
theory Taint_Laws
  imports Envelope_Laws Decode_Laws
begin

text \<open>
  Provenance labels are never lost: a label carried by everything injected is carried by everything
  the pipeline ever holds, hands to a handler, or sends.
\<close>

section \<open>Labels in the running pipeline\<close>

definition labelled :: "u8 \<Rightarrow> envelope \<Rightarrow> bool" where
  "labelled b env \<longleftrightarrow> contains_bit (m_provenance (e_meta env)) b"

abbreviation labelled_raw :: "lib \<Rightarrow> u8 \<Rightarrow> u8 list \<Rightarrow> bool" where
  "labelled_raw L b \<equiv> raw_holds L (labelled b)"

lemma answers_labelled:
  assumes "xml_laws L" "escape_laws L"
  shows "answers_keep L (labelled b) dx"
  unfolding answers_keep_def
proof (intro allI impI ballI)
  fix threads fresh msg r raw
  assume msg: "labelled b (rm_envelope msg)" and raw: "raw \<in> set (sends (snd (respond L dx threads fresh msg r)))"
  obtain threads' acts where r: "respond L dx threads fresh msg r = (threads', acts)" by fastforce
  with raw respond_sends [OF assms(1) r] obtain env where
    "env \<in> set (response_envelopes dx threads fresh msg r)" "raw = bytes_of L (envelope_events L env)"
    by auto
  with response_provenance decode_keeps(1) [OF assms] msg show "labelled_raw L b raw"
    unfolding raw_holds_def labelled_def by metis
qed

lemmas label_inv_reachable = env_inv_reachable [where P = "labelled b" for b, OF _ _ _ _ answers_labelled]

end
