(* ===== verification/Progress_Laws.thy ===== *)
theory Progress_Laws
  imports Pipeline_Laws
begin

text \<open>
  The self-feeding pipeline does not deadlock: although the workers send into the channel that
  feeds the first stage, some message can always move while there is work, because the dispatch
  stage never waits (its worker queues are unbounded).
\<close>

section \<open>Fresh thread ids never run out\<close>

definition threads_finite :: "thread_registry \<Rightarrow> bool" where
  "threads_finite r \<longleftrightarrow> finite (dom (uuid_to_chain r))"

lemma threads_finite_fresh: "threads_finite r \<Longrightarrow> \<exists>fresh. uuid_to_chain r fresh = None"
  unfolding threads_finite_def
  by (metis domIff ex_new_if_finite infinite_UNIV_listI)

lemma threads_finite_bind [simp]: "threads_finite (bind_thread r c u) = threads_finite r"
  by (simp add: threads_finite_def)

lemma threads_finite_get: "threads_finite r \<Longrightarrow> threads_finite (snd (get_or_create r f c))"
  by (simp add: get_or_create_def split: option.split)

lemma threads_finite_prune: "threads_finite r \<Longrightarrow> threads_finite (snd (prune_for_response r f t))"
  by (auto simp: prune_for_response_def Let_def cleanup_def threads_finite_def split: option.splits)

lemma threads_finite_response: "threads_finite r \<Longrightarrow> threads_finite (response_threads dx r f msg resp)"
  by (cases resp) (simp_all add: threads_finite_prune extend_chain_alt threads_finite_get)

lemma threads_finite_register: "threads_finite r \<Longrightarrow> threads_finite (register_if_needed r t i g)"
  by (simp add: register_if_needed_def register_thread_def Let_def split: option.split)

lemma evolves_finite: "evolves L dx fed r r' \<Longrightarrow> threads_finite r \<Longrightarrow> threads_finite r'"
proof (induction rule: evolves.induct)
  case stay
  then show ?case by simp
next
  case (routed r' vm out r'')
  then show ?case
    using route_msg_threads [OF routed.hyps(2)] threads_finite_register by auto
next
  case (responded r' fresh msg resp r'' acts)
  then show ?case
    using respond_threads [OF responded.hyps(3)] threads_finite_response by simp
qed

lemma finite_reachable:
  assumes "reachable L cap may p0 p" "threads_finite (p_threads p0)"
  shows "threads_finite (p_threads p)"
  using assms(1)
proof (rule reachable_inv)
  show "threads_finite (p_threads (pipeline_run p0))"
    using assms(2) by (simp add: pipeline_run_def)
qed (use evolves_finite [OF pwork_threads] in blast, simp)

section \<open>No deadlock\<close>

definition running :: "'s pipeline \<Rightarrow> bool" where
  "running p \<longleftrightarrow> p_parse_up p \<and> p_validate_up p \<and> p_route_up p \<and> p_dispatch_up p"

text \<open>
  \<open>H\<close> is a set of workers that hang: the tasks of handlers that do not return.
\<close>

definition work_outside :: "nat set \<Rightarrow> 's pipeline \<Rightarrow> bool" where
  "work_outside H p \<longleftrightarrow> p_ingress p \<noteq> [] \<or> p_parse_hold p \<noteq> None \<or> p_parsed p \<noteq> [] \<or>
     p_validate_hold p \<noteq> None \<or> p_validated p \<noteq> [] \<or> p_route_hold p \<noteq> None \<or> p_routed p \<noteq> [] \<or>
     (\<exists>i w. i \<notin> H \<and> tasks (p_fan p) i = Some w \<and> (wk_queue w \<noteq> [] \<or> (\<exists>as. wk_state w = Busy as)))"

abbreviation has_work :: "'s pipeline \<Rightarrow> bool" where
  "has_work \<equiv> work_outside {}"

text \<open>Some message is received, handed on, processed, or some action performed, by another task.\<close>

definition message_moves :: "lib \<Rightarrow> nat \<Rightarrow> nat set \<Rightarrow> 's pipeline \<Rightarrow> bool" where
  "message_moves L cap H p \<longleftrightarrow>
     parse_recv L p \<noteq> None \<or> parse_send p \<noteq> None \<or> validate_recv p \<noteq> None \<or> validate_send p \<noteq> None \<or>
     route_recv p \<noteq> None \<or> route_send cap p \<noteq> None \<or> dispatch_recv p \<noteq> None \<or>
     (\<exists>i. i \<notin> H \<and> (worker_take i p \<noteq> None \<or> worker_run i p \<noteq> None \<or> worker_act i p \<noteq> None \<or>
        (\<exists>fresh. uuid_to_chain (p_threads p) fresh = None \<and> worker_respond L fresh i p \<noteq> None)))"

text \<open>The one thing the pipeline waits for: the federation server draining its channel.\<close>

definition egress_blocked :: "nat \<Rightarrow> 's pipeline \<Rightarrow> bool" where
  "egress_blocked cap p \<longleftrightarrow> (\<exists>env. p_route_hold p = Some (Inl env)) \<and> p_egress_open p \<and> cap \<le> length (p_egress p)"

lemma dispatch_moves: "p_dispatch_up p \<Longrightarrow> p_routed p \<noteq> [] \<Longrightarrow> dispatch_recv p \<noteq> None"
  by (auto simp: dispatch_recv_def split: list.split)

lemma route_moves:
  assumes "p_dispatch_up p" "p_route_up p" "p_routed p = []" "\<not> egress_blocked cap p"
    and "p_route_hold p \<noteq> None \<or> p_validated p \<noteq> []"
  shows "route_send cap p \<noteq> None \<or> route_recv p \<noteq> None"
proof (cases "p_route_hold p")
  case None
  with assms show ?thesis
    by (auto simp: route_recv_def Let_def split: list.split prod.split)
next
  case (Some x)
  then have "route_send cap p \<noteq> None"
    using assms by (cases x) (auto simp: route_send_def egress_send_def has_room_def CHANNEL_BUFFER_def egress_blocked_def)
  then show ?thesis by simp
qed

lemma validate_moves:
  assumes "p_validate_up p" "p_route_up p" "p_validated p = []" "p_validate_hold p \<noteq> None \<or> p_parsed p \<noteq> []"
  shows "validate_send p \<noteq> None \<or> validate_recv p \<noteq> None"
  using assms
  by (cases "p_validate_hold p")
    (auto simp: validate_send_def validate_recv_def has_room_def CHANNEL_BUFFER_def split: list.split)

lemma parse_moves:
  assumes "p_parse_up p" "p_validate_up p" "p_parsed p = []" "p_parse_hold p \<noteq> None \<or> p_ingress p \<noteq> []"
  shows "parse_send p \<noteq> None \<or> parse_recv L p \<noteq> None"
  using assms
  by (cases "p_parse_hold p")
    (auto simp: parse_send_def parse_recv_def has_room_def CHANNEL_BUFFER_def split: list.split)

lemma worker_moves:
  assumes "tasks (p_fan p) i = Some w" "wk_queue w \<noteq> [] \<or> (\<exists>as. wk_state w = Busy as)" "p_ingress p = []"
  shows "worker_take i p \<noteq> None \<or> worker_run i p \<noteq> None \<or> worker_act i p \<noteq> None \<or> worker_respond L fresh i p \<noteq> None"
  using worker_progress [OF assms(1,2)]
proof (elim disjE exE)
  fix m f' assume "take_message i (p_fan p) = Some (m, f')"
  then have "worker_take i p \<noteq> None" by (simp add: worker_take_def)
  then show ?thesis by simp
next
  fix a f' assume n: "next_action i (p_fan p) = Some (a, f')"
  have room: "has_room (p_ingress p)"
    using assms(3) by (simp add: has_room_def CHANNEL_BUFFER_def)
  show ?thesis
  proof (cases a)
    case None
    with n show ?thesis by (simp add: worker_act_def)
  next
    case (Some x)
    with n room show ?thesis
      by (cases x)
        (auto simp: worker_act_def worker_run_def worker_respond_def split: prod.split option.split result.split)
  qed
qed

lemma progress:
  assumes "running p" "work_outside H p" "\<not> egress_blocked cap p" "threads_finite (p_threads p)"
  shows "message_moves L cap H p"
proof -
  from threads_finite_fresh [OF assms(4)] obtain fresh
    where fresh: "uuid_to_chain (p_threads p) fresh = None" ..
  note up = assms(1) [unfolded running_def]
  consider "p_routed p \<noteq> []"
    | "p_routed p = []" "p_route_hold p \<noteq> None \<or> p_validated p \<noteq> []"
    | "p_validated p = []" "p_validate_hold p \<noteq> None \<or> p_parsed p \<noteq> []"
    | "p_parsed p = []" "p_parse_hold p \<noteq> None \<or> p_ingress p \<noteq> []"
    | i w where "p_ingress p = []" "i \<notin> H" "tasks (p_fan p) i = Some w" "wk_queue w \<noteq> [] \<or> (\<exists>as. wk_state w = Busy as)"
    using assms(2) unfolding work_outside_def by blast
  then show ?thesis
  proof cases
    case 1
    then show ?thesis using dispatch_moves up by (auto simp: message_moves_def)
  next
    case 2
    with route_moves [of p cap] up assms(3) show ?thesis by (auto simp: message_moves_def)
  next
    case 3
    with validate_moves [of p] up show ?thesis by (auto simp: message_moves_def)
  next
    case 4
    with parse_moves [of p L] up show ?thesis by (auto simp: message_moves_def)
  next
    case 5
    from worker_moves [OF 5(3,4,1), of L fresh] fresh 5(2) show ?thesis
      unfolding message_moves_def by blast
  qed
qed

end
