(* ===== verification/Sample_Xml.thy ===== *)
theory Sample_Xml
  imports Codec_Laws
begin

text \<open>
  A concrete instance of the XML library interface that satisfies the documented laws, so that
  theorems with those laws as hypotheses can be applied.  It writes an event as a tag byte and
  its strings, and needs no escaping; a float is shown as the decimal value of its bit pattern.
\<close>

fun put_str :: "string \<Rightarrow> u8 list" where
  "put_str [] = [0]"
| "put_str (c # s) = 1 # byte_of c # put_str s"

fun take_str :: "u8 list \<Rightarrow> string \<times> u8 list" where
  "take_str (b # c # r) =
     (if b = 1 then (let (s, q) = take_str r in (char_of_byte c # s, q)) else ([], c # r))"
| "take_str r = ([], [])"

fun put_attrs :: "(string \<times> string) list \<Rightarrow> u8 list" where
  "put_attrs [] = [0]"
| "put_attrs ((k, v) # as) = 1 # put_str k @ put_str v @ put_attrs as"

fun take_attrs :: "nat \<Rightarrow> u8 list \<Rightarrow> (string \<times> string) list \<times> u8 list" where
  "take_attrs (Suc n) (b # r) =
     (if b = 1 then
        (let (k, r1) = take_str r; (v, r2) = take_str r1; (as, r3) = take_attrs n r2
         in ((k, v) # as, r3))
      else ([], r))"
| "take_attrs _ r = ([], r)"

fun put_event :: "xml_event \<Rightarrow> u8 list" where
  "put_event (XStart n as) = 1 # put_str n @ put_attrs as"
| "put_event (XEnd n) = 2 # put_str n"
| "put_event (XEmpty n as) = 3 # put_str n @ put_attrs as"
| "put_event (XText s) = 4 # put_str s"
| "put_event (XMisc s) = 5 # put_str s"

fun take_events :: "nat \<Rightarrow> u8 list \<Rightarrow> xml_event list" where
  "take_events (Suc n) (t # r) =
     (let (s, r1) = take_str r in
      if t = 1 \<or> t = 3 then
        (let (as, r2) = take_attrs (length r1) r1
         in (if t = 1 then XStart s as else XEmpty s as) # take_events n r2)
      else (if t = 2 then XEnd s else if t = 4 then XText s else XMisc s) # take_events n r1)"
| "take_events _ r = []"

definition sample_lib :: lib where
  "sample_lib = \<lparr>xml_read = (\<lambda>bs. map Inr (trim_events (take_events (length bs) bs))),
     xml_write = (\<lambda>e. Inr (put_event e)), xml_escape = (\<lambda>s. s), xml_unescape = Inr,
     f64_show = (\<lambda>x. show_u64 x), f64_parse = parse_u64\<rparr>"

lemma put_str_nonempty [simp]: "put_str s \<noteq> []" "put_str s @ r \<noteq> []"
  by (cases s; simp)+

lemma take_str_end: "take_str (0 # r) = ([], r)"
  by (cases r) simp_all

lemma take_put_str [simp]: "take_str (put_str s @ r) = (s, r)"
  by (induction s) (simp_all add: take_str_end)

lemma take_put_str_last [simp]: "take_str (put_str s) = (s, [])"
  using take_put_str [of s "[]"] by simp

lemma put_attrs_length: "length as < length (put_attrs as)"
  by (induction as rule: put_attrs.induct) auto

lemma take_put_attrs: "length as < n \<Longrightarrow> take_attrs n (put_attrs as @ r) = (as, r)"
proof (induction as arbitrary: n rule: put_attrs.induct)
  case 1
  then show ?case by (cases n) simp_all
next
  case (2 k v as)
  then show ?case by (cases n) simp_all
qed

lemma take_put_attrs_full [simp]:
  "take_attrs (length (put_attrs as) + k) (put_attrs as @ r) = (as, r)"
  by (rule take_put_attrs) (use put_attrs_length [of as] in simp)

lemma take_put_events: "length es \<le> n \<Longrightarrow> take_events n (concat (map put_event es)) = es"
proof (induction es arbitrary: n)
  case Nil
  then show ?case by (cases n) simp_all
next
  case (Cons e es)
  then obtain m where n: "n = Suc m" "length es \<le> m" by (cases n) simp_all
  with Cons.IH show ?case
    by (cases e) simp_all
qed

lemma put_events_length: "length es \<le> length (concat (map put_event es))"
proof (induction es)
  case (Cons e es)
  have "1 \<le> length (put_event e)"
    by (cases e) simp_all
  from add_mono [OF this Cons.IH] show ?case by simp
qed simp

lemma sample_write_all: "write_all sample_lib es = Some (concat (map put_event es))"
  by (induction es) (simp_all add: sample_lib_def)

lemma sample_xml_laws: "xml_laws sample_lib"
  unfolding xml_laws_def sample_write_all
  by (simp add: sample_lib_def take_put_events put_events_length)

lemma sample_escape_laws: "escape_laws sample_lib"
  by (simp add: escape_laws_def sample_lib_def)

lemma sample_f64_laws: "f64_laws sample_lib x"
proof -
  have "show_u64 x \<noteq> []"
    using parse_u64_show [of x] by (auto simp: parse_u64_def from_str_radix_def)
  then show ?thesis
    by (simp add: f64_laws_def sample_lib_def show_u64_printable)
qed

end
