(* ===== verification/Scenario.thy ===== *)
theory Scenario
  imports Taint_Laws Progress_Laws Sample_Xml
begin

text \<open>
  A concrete run, used where a theorem about the running pipeline is applied: the echo listener
  of the crate's own tests, one injected greeting, and each step up to the handler and back.
\<close>

section \<open>The echo pipeline\<close>

definition echo_handler :: "unit handler_impl" where
  "echo_handler = fn_handler (\<lambda>s p c. (Ok (HReply (to_payload p)), s))"

definition demo_registry :: "unit listener_registry" where
  "demo_registry = registry_register registry_new ''echo'' ''Greeting'' echo_handler False [] ''Echo handler'' None"

definition demo_env :: envelope where
  "demo_env = \<lparr>e_meta = \<lparr>m_from = flat ''alice'', m_to = Some (flat ''echo''), m_thread = ''t1'',
      m_provenance = from_bit 3\<rparr>, e_payload = payload_single ''Greeting'' ''text'' ''hi''\<rparr>"

definition demo_raw :: "u8 list" where
  "demo_raw = bytes_of sample_lib (envelope_events sample_lib demo_env)"

definition demo_start :: "unit pipeline" where
  "demo_start = pipeline_new demo_registry thread_new ()"

definition demo_vm :: validated_msg where
  "demo_vm = \<lparr>vm_envelope = demo_env,
     vm_payload = \<lparr>vp_tag = ''Greeting'', vp_value = Rec [Field ''text'' (Text ''hi'')]\<rparr>\<rparr>"

definition demo_rm :: routed_msg where
  "demo_rm = \<lparr>rm_envelope = demo_env, rm_payload = vm_payload demo_vm, rm_target = ''echo''\<rparr>"

section \<open>Its messages\<close>

lemma plain_names [simp]: "plain_name ''alice''" "plain_name ''echo''"
  by (simp_all add: plain_name_def)

lemma meta_text_printable: "printable s \<Longrightarrow> s \<noteq> [] \<Longrightarrow> meta_text s"
  by (simp add: meta_text_def trim_printable xml_trim_printable)

lemma flat_display: "plain_name n \<Longrightarrow> address_display (flat n) = n"
  by (simp add: address_display_def seg_display_def flat_def)

lemma demo_wf: "wf_envelope sample_lib demo_env"
  by (simp add: wf_envelope_def wf_meta_def demo_env_def wf_flat flat_display meta_text_printable
      payload_single_def attr_ok_def no_markup_def printable_utf8 text_ok_def code_def)

lemma demo_norm: "norm_envelope demo_env = demo_env"
  by (simp add: norm_envelope_def demo_env_def payload_single_def xml_trim_printable code_def)

lemma demo_decode: "decode_envelope sample_lib demo_raw = Ok demo_env"
  using decode_encode_env [OF sample_xml_laws sample_escape_laws demo_wf] demo_norm
  by (simp add: encode_envelope_bytes sample_xml_laws demo_raw_def)

lemma demo_labelled: "labelled_raw sample_lib 3 demo_raw"
  by (simp add: raw_holds_def demo_decode labelled_def demo_env_def from_bit_def contains_bit_set)

lemma demo_validate: "validate_msg demo_registry demo_env = Ok demo_vm"
proof -
  have "schema_get (lr_schemas demo_registry) ''Greeting'' = None"
    by (simp add: demo_registry_def registry_register_def registry_new_def schemas_new_def schema_get_def)
  from validate_value_unknown [OF this] show ?thesis
    by (simp add: validate_msg_Ok demo_env_def demo_vm_def payload_single_def)
qed

lemma demo_lower [simp]: "to_lowercase ''echo'' = ''echo''" "to_lowercase ''Greeting'' = ''greeting''"
  by code_simp+

lemma demo_routing:
  "routes (lr_routing demo_registry) =
     [''echo.greeting'' \<mapsto> [listener_of (''echo'', ''Greeting'', False, [], ''Echo handler'')]]"
  "by_name (lr_routing demo_registry) =
     [''echo'' \<mapsto> listener_of (''echo'', ''Greeting'', False, [], ''Echo handler'')]"
  by (simp_all add: demo_registry_def registry_register_def registry_new_def routing_register_def
      routing_new_def listener_of_def Let_def)

lemma demo_resolve:
  "resolve (lr_routing demo_registry) (Some ''echo'') ''Greeting'' =
     Ok [listener_of (''echo'', ''Greeting'', False, [], ''Echo handler'')]"
  by (simp add: resolve_def demo_routing)

lemma demo_peers: "enforce_peers (lr_routing demo_registry) n m = Ok ()"
  by (simp add: enforce_peers_def demo_routing listener_of_def)

definition demo_threads :: thread_registry where
  "demo_threads = bind_thread thread_new ''alice.echo'' ''t1''"

lemma demo_route: "route_msg demo_registry None thread_new demo_vm = (Routed demo_rm, demo_threads)"
  by (simp add: route_msg_def demo_vm_def demo_env_def demo_rm_def demo_resolve demo_peers sender_name_def
      name_or_empty_def payload_single_def listener_of_def demo_threads_def register_if_needed_def
      thread_lookup_def register_thread_def thread_new_def Let_def)

section \<open>The run\<close>

definition demo1 :: "unit pipeline" where "demo1 = (pipeline_run demo_start)\<lparr>p_ingress := [demo_raw]\<rparr>"
definition demo2 :: "unit pipeline" where "demo2 = demo1\<lparr>p_ingress := [], p_parse_hold := Some demo_env\<rparr>"
definition demo3 :: "unit pipeline" where "demo3 = demo2\<lparr>p_parse_hold := None, p_parsed := [demo_env]\<rparr>"
definition demo4 :: "unit pipeline" where "demo4 = demo3\<lparr>p_parsed := [], p_validate_hold := Some demo_vm\<rparr>"
definition demo5 :: "unit pipeline" where "demo5 = demo4\<lparr>p_validate_hold := None, p_validated := [demo_vm]\<rparr>"
definition demo6 :: "unit pipeline" where
  "demo6 = demo5\<lparr>p_validated := [], p_threads := demo_threads, p_route_hold := Some (Inr demo_rm)\<rparr>"
definition demo7 :: "unit pipeline" where "demo7 = demo6\<lparr>p_route_hold := None, p_routed := [demo_rm]\<rparr>"
definition demo8 :: "unit pipeline" where
  "demo8 = demo7\<lparr>p_routed := [], p_fan := handoff ''t1'' demo_rm fan_new\<rparr>"

lemmas demo_states = demo1_def demo2_def demo3_def demo4_def demo5_def demo6_def demo7_def demo8_def
  pipeline_run_def demo_start_def pipeline_new_def has_room_def CHANNEL_BUFFER_def

lemma demo_steps:
  "inject demo_raw (pipeline_run demo_start) = Some (Ok (), demo1)"
  "parse_recv sample_lib demo1 = Some demo2"
  "parse_send demo2 = Some demo3"
  "validate_recv demo3 = Some demo4"
  "validate_send demo4 = Some demo5"
  "route_recv demo5 = Some demo6"
  "route_send 1 demo6 = Some demo7"
  "dispatch_recv demo7 = Some demo8"
  by (simp_all add: demo_states inject_def stage_defs parse_msg_stage_def demo_decode demo_validate demo_route)
    (simp add: demo_rm_def demo_env_def)

lemma demo_reachable:
  assumes "may demo_raw"
  shows "reachable sample_lib 1 may demo_start demo7" "reachable sample_lib 1 may demo_start demo8"
proof -
  note start = reachable.start [of sample_lib 1 may demo_start]
  note r1 = reachable.step [OF start pstep.inject [where may_inject = may and raw = demo_raw, OF assms demo_steps(1)]]
  note r2 = reachable.step [OF r1 pstep.work [OF pwork.parse_recv [OF demo_steps(2)]]]
  note r3 = reachable.step [OF r2 pstep.work [OF pwork.parse_send [OF demo_steps(3)]]]
  note r4 = reachable.step [OF r3 pstep.work [OF pwork.validate_recv [OF demo_steps(4)]]]
  note r5 = reachable.step [OF r4 pstep.work [OF pwork.validate_send [OF demo_steps(5)]]]
  note r6 = reachable.step [OF r5 pstep.work [OF pwork.route_recv [OF demo_steps(6)]]]
  note r7 = reachable.step [OF r6 pstep.work [OF pwork.route_send [OF demo_steps(7)]]]
  show "reachable sample_lib 1 may demo_start demo7" by (rule r7)
  show "reachable sample_lib 1 may demo_start demo8"
    by (rule reachable.step [OF r7 pstep.work [OF pwork.dispatch_recv [OF demo_steps(8)]]])
qed

lemma demo_runs:
  "reachable sample_lib 1 (\<lambda>_. True) demo_start demo7" "reachable sample_lib 1 (\<lambda>_. True) demo_start demo8"
  by (rule demo_reachable, rule TrueI)+

lemma demo_labelled_run: "reachable sample_lib 1 (labelled_raw sample_lib 3) demo_start demo8"
  by (rule demo_reachable [where may = "labelled_raw sample_lib 3", OF demo_labelled])

lemma demo_fan:
  "p_fan demo8 = \<lparr>wmap = [''t1'' \<mapsto> 0], tasks = [0 \<mapsto> \<lparr>wk_key = ''t1'', wk_queue = [demo_rm], wk_state = Waiting\<rparr>],
     next_task = 1, fo_in = [(''t1'', demo_rm)], fo_started = [], fo_lost = []\<rparr>"
  by (simp add: demo8_def handoff_none fan_new_def)

lemma demo_taken: "\<exists>f. take_message 0 (p_fan demo8) = Some (demo_rm, f)"
  by (simp add: demo_fan take_message_def)

lemma demo_threads_ok: "threads_inv (p_threads demo_start)" "threads_finite (p_threads demo_start)"
  "p_egress demo_start = []" "p_registry demo_start = demo_registry"
  by (simp_all add: demo_start_def pipeline_new_def threads_finite_def) (simp add: thread_new_def)

lemma demo_registry_wf: "registry_wf demo_registry"
  using registry_wf_add [OF registry_wf_new, of "\<lparr>rg_name = ''echo'', rg_tag = ''Greeting'',
      rg_handler = echo_handler, rg_is_agent = False, rg_peers = [], rg_description = ''Echo handler'', rg_schema = None\<rparr>"]
  by (simp add: add_listener_def demo_registry_def)

section \<open>Responses in the run\<close>

lemma demo_dx: "dx_registry (dispatch_ctx_of demo7) = demo_registry" "dx_middleware (dispatch_ctx_of demo7) = []"
  by (simp_all add: dispatch_ctx_of_def demo_states)

lemma demo_handler: "get_handler demo_registry ''echo'' = Some echo_handler"
  by (simp add: demo_registry_def registry_register_def get_handler_def)

lemma demo_handled:
  "handle_message (dispatch_ctx_of demo7) demo_rm () = (Some (Ok (HReply (to_payload (rm_payload demo_rm)))), ())"
proof -
  have "get_handler (dx_registry (dispatch_ctx_of demo7)) (rm_target demo_rm) = Some echo_handler"
    by (simp add: demo_dx demo_handler demo_rm_def)
  moreover have "run_handler (dispatch_ctx_of demo7) echo_handler demo_rm () = (Ok (HReply (to_payload (rm_payload demo_rm))), ())"
    by (simp add: run_handler_def demo_dx echo_handler_def fn_handler_def)
  ultimately show ?thesis
    by (simp add: handle_message_def)
qed

text \<open>The echo's reply travels on the thread of the chain \<open>alice\<close>, new at that point.\<close>

lemma demo_reply:
  "response_envelopes (dispatch_ctx_of demo7) demo_threads ''t2'' demo_rm (HReply (e_payload demo_env)) =
     [envelope_from ''echo'' (flat ''alice'') ''t2'' (from_bit 3) (e_payload demo_env)]"
proof -
  have "uuid_to_chain demo_threads ''t1'' = Some (''alice'' @ CHR ''.'' # ''echo'')"
    by (simp add: demo_threads_def)
  from prune_alt [OF this, of "''t2''"] show ?thesis
    by (simp add: demo_rm_def demo_env_def answer_to_def get_or_create_def demo_threads_def thread_new_def)
qed

lemma demo_reply_wf: "wf_envelope sample_lib (envelope_from ''echo'' (flat ''alice'') ''t2'' (from_bit 3) (e_payload demo_env))"
  using demo_wf
  by (simp add: wf_envelope_def wf_meta_def envelope_from_def demo_env_def wf_flat flat_display meta_text_printable code_def)

lemma demo_reply_norm:
  "norm_envelope (envelope_from ''echo'' (flat ''alice'') ''t2'' (from_bit 3) (e_payload demo_env)) =
     envelope_from ''echo'' (flat ''alice'') ''t2'' (from_bit 3) (e_payload demo_env)"
  by (simp add: norm_envelope_def envelope_from_def demo_env_def payload_single_def xml_trim_printable code_def)

text \<open>A message delivered to a callee of the echo listener.\<close>

definition bob_rm :: routed_msg where
  "bob_rm = demo_rm\<lparr>rm_envelope := demo_env\<lparr>e_meta := (e_meta demo_env)\<lparr>m_thread := ''t2''\<rparr>\<rparr>, rm_target := ''bob''\<rparr>"

text \<open>The echo listener as an agent whose only peer is bob.\<close>

definition agent_ctx :: "unit dispatch_ctx" where
  "agent_ctx = \<lparr>dx_registry = registry_register registry_new ''echo'' ''Greeting'' echo_handler True [''bob''] [] None,
     dx_middleware = [], dx_observed = False\<rparr>"

lemma agent_ctx_by_name:
  "by_name (lr_routing (dx_registry agent_ctx)) ''echo'' = Some (listener_of (''echo'', ''Greeting'', True, [''bob''], []))"
  by (simp add: agent_ctx_def registry_register_def registry_new_def routing_register_def routing_new_def
      listener_of_def Let_def)

lemma agent_ctx_resolve:
  "resolve (lr_routing (dx_registry agent_ctx)) (Some ''echo'') (pl_tag (e_payload demo_env)) =
     Ok [listener_of (''echo'', ''Greeting'', True, [''bob''], [])]"
  by (simp add: agent_ctx_def registry_register_def registry_new_def routing_register_def routing_new_def
      listener_of_def Let_def resolve_def demo_env_def payload_single_def)

text \<open>A registry with a root in which another thread already owns the chain.\<close>

definition other_threads :: thread_registry where
  "other_threads = bind_thread (snd (initialize_root thread_new ''r0'' ''acme'')) ''system.acme.alice.echo'' ''t0''"

lemma demo_route_other: "route_msg demo_registry None other_threads demo_vm = (Routed demo_rm, other_threads)"
  by (simp add: route_msg_def demo_vm_def demo_env_def demo_rm_def demo_resolve demo_peers sender_name_def
      name_or_empty_def payload_single_def listener_of_def other_threads_def register_if_needed_def
      thread_lookup_def register_thread_def initialize_root_def thread_new_def Let_def)

text \<open>A pipeline whose handler is about to panic, with another message queued on the thread.\<close>

definition panic_handler :: "unit handler_impl" where
  "panic_handler = fn_handler (\<lambda>s p c. (Panic, s))"

definition panic_pipeline :: "unit pipeline" where
  "panic_pipeline = demo7\<lparr>p_registry := registry_register registry_new ''echo'' ''Greeting'' panic_handler False [] [] None,
     p_fan := \<lparr>wmap = [''t1'' \<mapsto> 0],
       tasks = [0 \<mapsto> \<lparr>wk_key = ''t1'', wk_queue = [demo_rm], wk_state = Busy [ARun demo_rm]\<rparr>], next_task = 1,
       fo_in = [(''t1'', demo_rm), (''t1'', demo_rm)], fo_started = [(''t1'', demo_rm)], fo_lost = []\<rparr>\<rparr>"

lemma panic_handled:
  "handle_message (dispatch_ctx_of panic_pipeline) demo_rm (p_host panic_pipeline) = (Some Panic, p_host panic_pipeline)"
  by (simp add: handle_message_def dispatch_ctx_of_def panic_pipeline_def registry_register_def get_handler_def
      demo_rm_def run_handler_def panic_handler_def fn_handler_def demo_states)

end
