(* ===== verification/Drain_Laws.thy ===== *)
theory Drain_Laws
  imports Progress_Laws
begin

text \<open>
  After the parse stage has stopped (on the shutdown signal, or because a message made it panic)
  the pipeline runs dry: every step of its own tasks lowers a measure of the work left, and when
  none is possible any more, every stage has ended, every channel is empty and every worker has
  been reaped.
\<close>

section \<open>The work left in the workers\<close>

fun action_load :: "action \<Rightarrow> nat" where
  "action_load (ARun m) = 6"
| "action_load (ARespond m r) = 4"
| "action_load _ = 1"

fun state_load :: "action worker_state \<Rightarrow> nat" where
  "state_load Waiting = 2"
| "state_load TimedOut = 1"
| "state_load (Busy as) = 3 + sum_list (map action_load as)"

fun task_load :: "('m, action) worker option \<Rightarrow> nat" where
  "task_load None = 0"
| "task_load (Some w) = 9 * length (wk_queue w) + state_load (wk_state w)"

lemma outputs_load: "list_all is_output as \<Longrightarrow> sum_list (map action_load as) = length as"
proof (induction as)
  case (Cons a as)
  then show ?case by (cases a) simp_all
qed simp

lemma action_load_pos: "0 < action_load a"
  by (cases a) simp_all

lemma respond_load: "respond L dx threads fresh msg r = (threads', acts) \<Longrightarrow> sum_list (map action_load acts) \<le> 3"
  using respond_outputs outputs_load by metis

lemma after_handler_load: "sum_list (map action_load (after_handler dx msg result)) \<le> 5"
  by (auto simp: after_handler_parts close_edge_def split: option.split result.split)

definition fan_load :: "('m, action) fan_out \<Rightarrow> nat" where
  "fan_load f = (\<Sum>i<next_task f. task_load (tasks f i))"

lemma load_update:
  "(i :: nat) < n \<Longrightarrow> (\<Sum>j<n. task_load ((t(i := x)) j)) + task_load (t i) = (\<Sum>j<n. task_load (t j)) + task_load x"
proof -
  assume "i < n"
  then have "(\<Sum>j<n. g j) = g i + (\<Sum>j\<in>{..<n} - {i}. g j)" for g :: "nat \<Rightarrow> nat"
    by (simp add: sum.remove)
  moreover have "(\<Sum>j\<in>{..<n} - {i}. task_load ((t(i := x)) j)) = (\<Sum>j\<in>{..<n} - {i}. task_load (t j))"
    by (rule sum.cong) simp_all
  ultimately show ?thesis by simp
qed

lemma fan_load_update:
  assumes "fan_inv f" "tasks f i = Some w" "tasks f' = (tasks f)(i := x)" "next_task f' = next_task f"
  shows "fan_load f' + task_load (Some w) = fan_load f + task_load x"
proof -
  have "i < next_task f"
    using assms(1,2) by (simp add: fan_inv_def)
  from load_update [OF this, of "tasks f" x] show ?thesis
    by (simp add: fan_load_def assms(2-4))
qed

lemma fan_load_handoff:
  assumes "fan_inv f"
  shows "fan_load (handoff key m f) \<le> fan_load f + 11"
proof (cases rule: handoff_cases [where f = f and key = key and m = m])
  case (live i w)
  let ?w = "w\<lparr>wk_queue := wk_queue w @ [m]\<rparr>"
  have "fan_load (handoff key m f) + task_load (Some w) = fan_load f + task_load (Some ?w)"
    by (rule fan_load_update [OF assms live(2)]) (simp_all add: live(3))
  then show ?thesis by simp
next
  case fresh
  have "(\<Sum>j<next_task f. task_load (tasks (handoff key m f) j)) = fan_load f"
    unfolding fan_load_def by (rule sum.cong) (simp_all add: fresh(2))
  then show ?thesis
    by (simp add: fan_load_def fresh(2))
qed

lemma fan_load_take:
  assumes "fan_inv f" "take_message i f = Some (m, f')"
  shows "fan_load (set_actions i [ARun rm] f') < fan_load f"
proof -
  from assms(2) obtain w q where w: "tasks f i = Some w" "wk_queue w = m # q" "\<nexists>as. wk_state w = Busy as"
    and f': "f' = f\<lparr>tasks := (tasks f)(i \<mapsto> w\<lparr>wk_queue := q, wk_state := Busy []\<rparr>),
      fo_started := fo_started f @ [(wk_key w, m)]\<rparr>"
    by (auto simp: take_message_Some)
  have state: "1 \<le> state_load (wk_state w)"
    by (cases "wk_state w") simp_all
  have "fan_load (set_actions i [ARun rm] f') + task_load (Some w) =
      fan_load f + task_load (Some (w\<lparr>wk_queue := q, wk_state := Busy [ARun rm]\<rparr>))"
    by (rule fan_load_update [OF assms(1) w(1)]) (simp_all add: f' set_actions_def)
  with state w(2) show ?thesis by simp
qed

text \<open>An action gives way to the actions it leads to.\<close>

lemma fan_load_action:
  assumes "fan_inv f" "next_action i f = Some (Some a, f')" "sum_list (map action_load acts) < action_load a"
  shows "fan_load (set_actions i acts f') < fan_load f" "fan_load (worker_dies i f') < fan_load f"
proof -
  from assms(2) obtain w as where w: "tasks f i = Some w" "wk_state w = Busy (a # as)"
    and f': "f' = f\<lparr>tasks := (tasks f)(i \<mapsto> w\<lparr>wk_state := Busy as\<rparr>)\<rparr>"
    by (auto simp: next_action_Some)
  have load: "fan_load g + task_load (Some w) = fan_load f + task_load x"
    if "tasks g = (tasks f)(i := x)" "next_task g = next_task f" for g x
    by (rule fan_load_update [OF assms(1) w(1) that])
  from load [of "set_actions i acts f'" "Some (w\<lparr>wk_state := Busy acts\<rparr>)"] w(2) assms(3)
  show "fan_load (set_actions i acts f') < fan_load f" by (simp add: f' set_actions_def)
  from load [of "worker_dies i f'" None] w(2)
  show "fan_load (worker_dies i f') < fan_load f" by (simp add: f' worker_dies_def)
qed

lemma fan_load_worker:
  assumes "fan_inv f"
  shows "next_action i f = Some (a, f') \<Longrightarrow> fan_load f' < fan_load f"
    and "idle_timeout i f = Some f' \<Longrightarrow> fan_load f' < fan_load f"
    and "reap i f = Some f' \<Longrightarrow> fan_load f' < fan_load f"
proof -
  have load: "fan_load f' + task_load (Some w) = fan_load f + task_load x"
    if "tasks f i = Some w" "tasks f' = (tasks f)(i := x)" "next_task f' = next_task f" for w x
    by (rule fan_load_update [OF assms that])
  show "fan_load f' < fan_load f" if n: "next_action i f = Some (a, f')"
  proof -
    from n obtain w st where w: "tasks f i = Some w"
      and f': "f' = f\<lparr>tasks := (tasks f)(i \<mapsto> w\<lparr>wk_state := st\<rparr>)\<rparr>"
      and "state_load st < state_load (wk_state w)"
      using action_load_pos by (fastforce simp: next_action_Some split: option.splits)
    with load [OF w, of "Some (w\<lparr>wk_state := st\<rparr>)"] show ?thesis by simp
  qed
  show "fan_load f' < fan_load f" if "idle_timeout i f = Some f'"
    using that load by (fastforce simp: idle_timeout_Some)
  show "fan_load f' < fan_load f" if "reap i f = Some f'"
    using that load by (fastforce simp: reap_Some)
qed

section \<open>The work left in the pipeline\<close>

definition held :: "'a option \<Rightarrow> nat" where
  "held x = (if x = None then 0 else 1)"

definition held_up :: "bool \<Rightarrow> nat" where
  "held_up b = (if b then 1 else 0)"

definition drain_load :: "'s pipeline \<Rightarrow> nat" where
  "drain_load p = 17 * held (p_parse_hold p) + 16 * length (p_parsed p) + 15 * held (p_validate_hold p) +
     14 * length (p_validated p) + 13 * held (p_route_hold p) + 12 * length (p_routed p) + fan_load (p_fan p) +
     held_up (p_validate_up p) + held_up (p_route_up p) + held_up (p_dispatch_up p)"

lemma held_simps [simp]: "held None = 0" "held (Some x) = 1" "held_up True = 1" "held_up False = 0"
  by (simp_all add: held_def held_up_def)

lemma drain_step:
  assumes "pwork L cap p p'" "\<not> p_parse_up p" "fan_inv (p_fan p)"
  shows "drain_load p' < drain_load p \<and> \<not> p_parse_up p'"
  using assms(1)
proof cases
  case route_recv
  then obtain vm r threads' h where "p_validated p = vm # r" "p_route_hold p = None"
    and "p' = p\<lparr>p_validated := r, p_threads := threads', p_route_hold := h\<rparr>"
    by (blast dest: route_recv_Some)
  then show ?thesis
    using assms(2) by (simp add: drain_load_def held_def)
next
  case dispatch_recv
  then obtain rm r where "p_routed p = rm # r"
    and "p' = p\<lparr>p_routed := r, p_fan := handoff (thread_of rm) rm (p_fan p)\<rparr>"
    by (auto simp: dispatch_recv_Some)
  with assms(2) fan_load_handoff [OF assms(3), of "thread_of rm" rm] show ?thesis
    by (simp add: drain_load_def)
next
  case (worker_take i)
  with fan_load_take [OF assms(3)] assms(2) show ?thesis
    by (auto simp: worker_take_Some drain_load_def)
next
  case (worker_run i)
  then show ?thesis
  proof (cases rule: worker_run_Some)
    case (1 rm fan1 fan2 s' result)
    have "fan_load fan2 < fan_load (p_fan p)"
      using 1(4) fan_load_action [OF assms(3) 1(1), of "after_handler (dispatch_ctx_of p) rm result"]
        after_handler_load [of "dispatch_ctx_of p" rm result] by fastforce
    with 1(2) assms(2) show ?thesis by (simp add: drain_load_def)
  qed
next
  case (worker_respond fresh i)
  from worker_respond(2) show ?thesis
  proof (cases rule: worker_respond_Some)
    case (1 rm r fan1 threads' acts)
    have "fan_load (set_actions i acts fan1) < fan_load (p_fan p)"
      using fan_load_action(1) [OF assms(3) 1(1), of acts] respond_load [OF 1(2)] by simp
    with 1(3) assms(2) show ?thesis by (simp add: drain_load_def)
  qed
next
  case (worker_act i)
  then show ?thesis
  proof (cases rule: worker_act_Some)
    case (1 a fan1 xs es)
    with fan_load_worker(1) [OF assms(3) 1(1)] assms(2) show ?thesis by (simp add: drain_load_def)
  qed
next
  case (worker_timeout i)
  with fan_load_worker(2) [OF assms(3)] assms(2) show ?thesis
    by (auto simp: worker_timeout_Some drain_load_def)
next
  case (worker_reap i)
  with fan_load_worker(3) [OF assms(3)] assms(2) show ?thesis
    by (auto simp: worker_reap_Some drain_load_def)
next
  case parse_recv
  with assms(2) show ?thesis by (auto simp: parse_recv_Some drain_load_def)
next
  case parse_send
  with assms(2) show ?thesis by (auto simp: parse_send_Some drain_load_def)
next
  case parse_shutdown
  with assms(2) show ?thesis by (auto simp: parse_shutdown_Some drain_load_def)
next
  case validate_recv
  with assms(2) show ?thesis by (auto simp: validate_recv_Some drain_load_def)
next
  case validate_send
  with assms(2) show ?thesis by (auto simp: validate_send_Some drain_load_def)
next
  case validate_end
  with assms(2) show ?thesis by (auto simp: validate_end_Some drain_load_def)
next
  case route_send
  with assms(2) show ?thesis by (auto simp: route_send_Some drain_load_def)
next
  case route_end
  with assms(2) show ?thesis by (auto simp: route_end_Some drain_load_def)
next
  case dispatch_end
  with assms(2) show ?thesis by (auto simp: dispatch_end_Some drain_load_def)
qed

lemma drain_steps:
  "(pwork L cap ^^ n) p p' \<Longrightarrow> \<not> p_parse_up p \<Longrightarrow> base_inv p \<Longrightarrow>
   n + drain_load p' \<le> drain_load p \<and> \<not> p_parse_up p' \<and> base_inv p'"
proof (induction n arbitrary: p')
  case (Suc n)
  from Suc.prems(1) obtain q where q: "(pwork L cap ^^ n) p q" "pwork L cap q p'"
    by auto
  from Suc.IH [OF q(1) Suc.prems(2,3)] have "n + drain_load q \<le> drain_load p" "\<not> p_parse_up q" "base_inv q"
    by auto
  with drain_step [OF q(2)] base_inv_work [OF q(2)] show ?case
    by (fastforce simp: base_inv_def)
qed simp

lemma reachable_work: "(pwork L cap ^^ n) p p' \<Longrightarrow> reachable L cap may p0 p \<Longrightarrow> reachable L cap may p0 p'"
  by (induction n arbitrary: p') (auto intro: reachable.step pstep.work)

section \<open>The stages by themselves\<close>

text \<open>The steps of the four stages, without the workers.\<close>

inductive stage_step :: "lib \<Rightarrow> nat \<Rightarrow> 's pipeline \<Rightarrow> 's pipeline \<Rightarrow> bool" for L :: lib and cap :: nat where
  "parse_recv L p = Some p' \<Longrightarrow> stage_step L cap p p'"
| "parse_send p = Some p' \<Longrightarrow> stage_step L cap p p'"
| "parse_shutdown p = Some p' \<Longrightarrow> stage_step L cap p p'"
| "validate_recv p = Some p' \<Longrightarrow> stage_step L cap p p'"
| "validate_send p = Some p' \<Longrightarrow> stage_step L cap p p'"
| "validate_end p = Some p' \<Longrightarrow> stage_step L cap p p'"
| "route_recv p = Some p' \<Longrightarrow> stage_step L cap p p'"
| "route_send cap p = Some p' \<Longrightarrow> stage_step L cap p p'"
| "route_end p = Some p' \<Longrightarrow> stage_step L cap p p'"
| "dispatch_recv p = Some p' \<Longrightarrow> stage_step L cap p p'"
| "dispatch_end p = Some p' \<Longrightarrow> stage_step L cap p p'"

definition stage_load :: "'s pipeline \<Rightarrow> nat" where
  "stage_load p = 7 * length (p_ingress p) + 6 * held (p_parse_hold p) + 5 * length (p_parsed p) +
     4 * held (p_validate_hold p) + 3 * length (p_validated p) + 2 * held (p_route_hold p) + length (p_routed p) +
     held_up (p_parse_up p) + held_up (p_validate_up p) + held_up (p_route_up p) + held_up (p_dispatch_up p)"

lemma stage_step_work: "stage_step L cap p p' \<Longrightarrow> pwork L cap p p'"
  by (erule stage_step.cases) (auto intro: pwork.intros)

lemma stage_step_load:
  assumes "stage_step L cap p p'"
  shows "stage_load p' < stage_load p"
  using assms
proof cases
  case 1
  then obtain raw r where "p_ingress p = raw # r" "p_parse_up p" "p_parse_hold p = None"
    and "p' = (case parse_msg_stage L raw of Ok env \<Rightarrow> p\<lparr>p_ingress := r, p_parse_hold := Some env\<rparr>
       | Err e \<Rightarrow> p\<lparr>p_ingress := r\<rparr> | Panic \<Rightarrow> p\<lparr>p_ingress := [], p_parse_up := False\<rparr>)"
    by (auto simp: parse_recv_Some)
  then show ?thesis by (cases "parse_msg_stage L raw") (simp_all add: stage_load_def)
next
  case 7
  then obtain vm r threads' h where "p_validated p = vm # r" "p_route_hold p = None"
    "p' = p\<lparr>p_validated := r, p_threads := threads', p_route_hold := h\<rparr>"
    by (blast dest: route_recv_Some)
  then show ?thesis by (simp add: stage_load_def held_def)
qed (auto simp: stage_Some stage_load_def)

lemma stage_steps_load: "(stage_step L cap ^^ n) p p' \<Longrightarrow> n + stage_load p' \<le> stage_load p"
proof (induction n arbitrary: p')
  case (Suc n)
  then obtain q where "(stage_step L cap ^^ n) p q" "stage_step L cap q p'" by auto
  with Suc.IH [of q] stage_step_load [of L cap q p'] show ?case by fastforce
qed simp

section \<open>What is left when nothing moves\<close>

definition stopped_inv :: "'s pipeline \<Rightarrow> bool" where
  "stopped_inv p \<longleftrightarrow>
     (p_parse_up p \<longrightarrow> p_validate_up p) \<and> (p_validate_up p \<longrightarrow> p_route_up p) \<and>
     (p_route_up p \<longrightarrow> p_dispatch_up p) \<and>
     (p_ingress p \<noteq> [] \<longrightarrow> p_parse_up p) \<and> (p_parse_hold p \<noteq> None \<longrightarrow> p_parse_up p) \<and>
     (p_parsed p \<noteq> [] \<longrightarrow> p_validate_up p) \<and> (p_validate_hold p \<noteq> None \<longrightarrow> p_validate_up p) \<and>
     (p_validated p \<noteq> [] \<longrightarrow> p_route_up p) \<and> (p_route_hold p \<noteq> None \<longrightarrow> p_route_up p) \<and>
     (p_routed p \<noteq> [] \<longrightarrow> p_dispatch_up p)"

lemma stopped_inv_same:
  assumes "stopped_inv p" "p_parse_up p' = p_parse_up p" "p_validate_up p' = p_validate_up p"
    "p_route_up p' = p_route_up p" "p_dispatch_up p' = p_dispatch_up p" "p_parse_hold p' = p_parse_hold p"
    "p_parsed p' = p_parsed p" "p_validate_hold p' = p_validate_hold p" "p_validated p' = p_validated p"
    "p_route_hold p' = p_route_hold p" "p_routed p' = p_routed p"
    "p_ingress p' = p_ingress p \<or> p_parse_up p"
  shows "stopped_inv p'"
  using assms by (auto simp: stopped_inv_def)

lemma stopped_inv_work:
  assumes "pwork L cap p p'" "stopped_inv p"
  shows "stopped_inv p'"
  using assms(1)
proof cases
  case parse_recv
  with assms(2) show ?thesis
    by (clarsimp simp: parse_recv_Some stopped_inv_def split: result.split)
next
  case route_recv
  with assms(2) show ?thesis
    by (clarsimp simp: stopped_inv_def dest!: route_recv_Some)
next
  case (worker_take i)
  with assms(2) show ?thesis by (clarsimp simp: worker_take_Some stopped_inv_def)
next
  case (worker_run i)
  then show ?thesis
    by (cases rule: worker_run_Some) (simp add: stopped_inv_same [OF assms(2)])
next
  case (worker_respond fresh i)
  from worker_respond(2) show ?thesis
    by (cases rule: worker_respond_Some) (simp add: stopped_inv_same [OF assms(2)])
next
  case (worker_act i)
  then show ?thesis
    by (cases rule: worker_act_Some) (rule stopped_inv_same [OF assms(2)]; auto)
next
  case parse_send
  then obtain env where h: "p_parse_hold p = Some env" by (auto simp: parse_send_Some)
  with assms(2) have "p_parse_up p" "p_validate_up p" by (simp_all add: stopped_inv_def)
  with parse_send h assms(2) show ?thesis by (simp add: parse_send_Some stopped_inv_def)
next
  case parse_shutdown
  with assms(2) show ?thesis by (clarsimp simp: parse_shutdown_Some stopped_inv_def)
next
  case validate_recv
  then obtain env r where h: "p_validate_up p" "p_parsed p = env # r" by (auto simp: validate_recv_Some)
  with assms(2) have "p_route_up p" "p_dispatch_up p" by (simp_all add: stopped_inv_def)
  with validate_recv h assms(2) show ?thesis by (auto simp: validate_recv_Some stopped_inv_def)
next
  case validate_send
  then obtain vm where h: "p_validate_hold p = Some vm" by (auto simp: validate_send_Some)
  with assms(2) have "p_validate_up p" "p_route_up p" by (simp_all add: stopped_inv_def)
  with validate_send h assms(2) show ?thesis by (simp add: validate_send_Some stopped_inv_def)
next
  case validate_end
  with assms(2) show ?thesis by (clarsimp simp: validate_end_Some stopped_inv_def)
next
  case route_send
  then obtain x where h: "p_route_hold p = Some x" by (auto simp: route_send_Some)
  with assms(2) have "p_route_up p" "p_dispatch_up p" by (simp_all add: stopped_inv_def)
  with route_send h assms(2) show ?thesis by (cases x; auto simp: route_send_Some stopped_inv_def)
next
  case route_end
  with assms(2) show ?thesis by (clarsimp simp: route_end_Some stopped_inv_def)
next
  case dispatch_recv
  with assms(2) show ?thesis by (clarsimp simp: dispatch_recv_Some stopped_inv_def)
next
  case dispatch_end
  with assms(2) show ?thesis by (clarsimp simp: dispatch_end_Some stopped_inv_def)
next
  case (worker_timeout i)
  with assms(2) show ?thesis by (clarsimp simp: worker_timeout_Some stopped_inv_def)
next
  case (worker_reap i)
  with assms(2) show ?thesis by (clarsimp simp: worker_reap_Some stopped_inv_def)
qed

lemma stopped_inv_reachable: "reachable L cap may p0 p \<Longrightarrow> stopped_inv p"
proof (induction rule: reachable.induct)
  case start
  then show ?case by (simp add: stopped_inv_def pipeline_run_def)
next
  case (step p p')
  from step.hyps(2) show ?case
  proof cases
    case work
    with step.IH show ?thesis by (rule stopped_inv_work [rotated])
  next
    case (inject raw res)
    from inject_fields [OF inject(2)] show ?thesis
      by - (rule stopped_inv_same [OF step.IH]; auto)
  qed (rule stopped_inv_same [OF step.IH]; simp add: signal_shutdown_def)+
qed

lemma idle_task:
  assumes "tasks f i = Some w" "wk_queue w = []" "\<nexists>as. wk_state w = Busy as"
  shows "idle_timeout i f \<noteq> None \<or> reap i f \<noteq> None"
  using assms by (cases "wk_state w") (auto simp: idle_timeout_def reap_def)

lemma drained:
  assumes "stopped_inv p" "threads_finite (p_threads p)" "\<not> p_parse_up p" "\<not> egress_blocked cap p"
    and stuck: "\<And>p'. \<not> pwork L cap p p'"
  shows "\<not> p_validate_up p \<and> \<not> p_route_up p \<and> \<not> p_dispatch_up p" "\<not> has_work p" "tasks (p_fan p) = Map.empty"
proof -
  note inv = assms(1) [unfolded stopped_inv_def]
  from threads_finite_fresh [OF assms(2)] obtain fresh where fresh: "uuid_to_chain (p_threads p) fresh = None" ..
  have no: "g = None" if "\<And>p'. g = Some p' \<Longrightarrow> pwork L cap p p'" for g
    using that stuck by (cases g) auto
  show t: "tasks (p_fan p) = Map.empty"
  proof (rule ccontr)
    assume "tasks (p_fan p) \<noteq> Map.empty"
    then obtain i w where w: "tasks (p_fan p) i = Some w"
      by (meson not_None_eq ext)
    have "worker_take i p = None" "worker_run i p = None" "worker_respond L fresh i p = None" "worker_act i p = None"
      by (rule no, erule pwork.worker_take, rule no, erule pwork.worker_run,
        rule no, erule pwork.worker_respond [OF fresh], rule no, erule pwork.worker_act)
    with worker_moves [OF w, of L fresh] inv assms(3)
    have "wk_queue w = []" "\<nexists>as. wk_state w = Busy as" by blast+
    from idle_task [OF w this] have "worker_timeout i p \<noteq> None \<or> worker_reap i p \<noteq> None"
      by (simp add: worker_timeout_def worker_reap_def)
    moreover have "worker_timeout i p = None"
      by (rule no) (erule pwork.worker_timeout)
    moreover have "worker_reap i p = None"
      by (rule no) (erule pwork.worker_reap)
    ultimately show False by blast
  qed
  have none: "validate_send p = None" "validate_recv p = None" "validate_end p = None" "route_send cap p = None"
      "route_recv p = None" "route_end p = None" "dispatch_recv p = None" "dispatch_end p = None"
    by (blast intro: no pwork.intros)+
  have room: "has_room []"
    by (simp add: has_room_def CHANNEL_BUFFER_def)
  have 1: "p_routed p = []"
    using none(7) inv by (auto simp: dispatch_recv_def split: list.splits if_splits)
  then have 2: "p_route_hold p = None"
    using none(4) assms(4) room by (auto simp: route_send_def egress_send_def egress_blocked_def split: option.splits sum.splits if_splits)
  then have 3: "p_validated p = []"
    using none(5) inv by (auto simp: route_recv_def Let_def split: list.splits if_splits prod.splits)
  then have 4: "p_validate_hold p = None"
    using none(1) room by (auto simp: validate_send_def split: option.splits if_splits)
  then have 5: "p_parsed p = []"
    using none(2) inv by (auto simp: validate_recv_def split: list.splits if_splits)
  have 6: "\<not> p_validate_up p"
    using none(3) 4 5 assms(3) by (simp add: validate_end_def split: if_splits)
  have 7: "\<not> p_route_up p"
    using none(6) 2 3 6 by (simp add: route_end_def split: if_splits)
  have 8: "\<not> p_dispatch_up p"
    using none(8) 1 7 by (simp add: dispatch_end_def split: if_splits)
  from 6 7 8 show "\<not> p_validate_up p \<and> \<not> p_route_up p \<and> \<not> p_dispatch_up p" by simp
  show "\<not> has_work p"
    using 1 2 3 4 5 t inv assms(3) by (auto simp: work_outside_def)
qed

section \<open>The parse stage never comes back\<close>

lemma down_work:
  assumes "pwork L cap p p'" "\<not> p_parse_up p" "p_ingress p = []"
  shows "\<not> p_parse_up p' \<and> p_ingress p' = []"
  using assms(1)
proof cases
  case route_recv
  then show ?thesis
    using assms(2,3) by (auto dest!: route_recv_Some)
next
  case (worker_take i)
  with assms(2,3) show ?thesis by (auto simp: worker_take_Some)
next
  case (worker_run i)
  then show ?thesis
    using assms(2,3) by (cases rule: worker_run_Some) simp
next
  case (worker_respond fresh i)
  from worker_respond(2) assms(2,3) show ?thesis
    by (cases rule: worker_respond_Some) simp
next
  case (worker_act i)
  then show ?thesis
    using assms(2,3) by (cases rule: worker_act_Some) auto
next
  case parse_recv
  with assms(2,3) show ?thesis by (auto simp: parse_recv_Some)
next
  case parse_send
  with assms(2,3) show ?thesis by (auto simp: parse_send_Some)
next
  case parse_shutdown
  with assms(2,3) show ?thesis by (auto simp: parse_shutdown_Some)
next
  case validate_recv
  with assms(2,3) show ?thesis by (auto simp: validate_recv_Some)
next
  case validate_send
  with assms(2,3) show ?thesis by (auto simp: validate_send_Some)
next
  case validate_end
  with assms(2,3) show ?thesis by (auto simp: validate_end_Some)
next
  case route_send
  with assms(2,3) show ?thesis by (auto simp: route_send_Some)
next
  case route_end
  with assms(2,3) show ?thesis by (auto simp: route_end_Some)
next
  case dispatch_recv
  with assms(2,3) show ?thesis by (auto simp: dispatch_recv_Some)
next
  case dispatch_end
  with assms(2,3) show ?thesis by (auto simp: dispatch_end_Some)
next
  case (worker_timeout i)
  with assms(2,3) show ?thesis by (auto simp: worker_timeout_Some)
next
  case (worker_reap i)
  with assms(2,3) show ?thesis by (auto simp: worker_reap_Some)
qed

lemma down_steps:
  "(pstep L cap may)\<^sup>*\<^sup>* p p' \<Longrightarrow> \<not> p_parse_up p \<Longrightarrow> p_ingress p = [] \<Longrightarrow> \<not> p_parse_up p' \<and> p_ingress p' = []"
proof (induction rule: rtranclp_induct)
  case (step q q')
  then have q: "\<not> p_parse_up q" "p_ingress q = []" by simp_all
  from step.hyps(2) show ?case
    by cases (use q in \<open>auto simp: down_work signal_shutdown_def dest!: inject_fields\<close>)
qed simp

end
