(* ===== verification/Sequential_Laws.thy ===== *)
theory Sequential_Laws
  imports Drain_Laws
begin

text \<open>
  The pipeline against a sequential reference: \<open>sequential\<close> takes messages one at a time through
  parsing, validation and routing.  Whatever the stages, the workers, the senders and the
  federation server do in between, the running pipeline forwards and hands over exactly what the
  reference does, in its order.
\<close>

section \<open>The reference\<close>

type_synonym departure = "envelope + routed_msg"

fun delivered :: "route_outcome \<Rightarrow> departure list" where
  "delivered (Egress env) = [Inl env]"
| "delivered (Routed rm) = [Inr rm]"
| "delivered (Dropped e) = []"

definition routed_alone :: "'s listener_registry \<Rightarrow> federation_egress option \<Rightarrow> validated_msg \<Rightarrow> departure list" where
  "routed_alone reg fed vm = delivered (fst (route_msg reg fed thread_new vm))"

definition validated_alone :: "'s listener_registry \<Rightarrow> federation_egress option \<Rightarrow> envelope \<Rightarrow> departure list" where
  "validated_alone reg fed env = (case validate_msg reg env of Ok vm \<Rightarrow> routed_alone reg fed vm | _ \<Rightarrow> [])"

fun sequential :: "lib \<Rightarrow> 's listener_registry \<Rightarrow> federation_egress option \<Rightarrow> u8 list list \<Rightarrow> departure list" where
  "sequential L reg fed [] = []"
| "sequential L reg fed (raw # raws) =
     (case parse_msg_stage L raw of Ok env \<Rightarrow> validated_alone reg fed env | _ \<Rightarrow> []) @ sequential L reg fed raws"

fun to_egress :: "departure list \<Rightarrow> envelope list" where
  "to_egress [] = []"
| "to_egress (Inl env # ds) = env # to_egress ds"
| "to_egress (Inr rm # ds) = to_egress ds"

fun to_workers :: "departure list \<Rightarrow> routed_msg list" where
  "to_workers [] = []"
| "to_workers (Inl env # ds) = to_workers ds"
| "to_workers (Inr rm # ds) = rm # to_workers ds"

lemma sequential_append [simp]: "sequential L reg fed (xs @ ys) = sequential L reg fed xs @ sequential L reg fed ys"
  by (induction xs) simp_all

lemma to_egress_append [simp]: "to_egress (xs @ ys) = to_egress xs @ to_egress ys"
  by (induction xs rule: to_egress.induct) simp_all

lemma to_workers_append [simp]: "to_workers (xs @ ys) = to_workers xs @ to_workers ys"
  by (induction xs rule: to_workers.induct) simp_all

text \<open>Where a message goes does not depend on the threads registered before it.\<close>

lemma route_msg_outcome: "fst (route_msg reg fed threads vm) = fst (route_msg reg fed threads' vm)"
  by (simp add: route_msg_def Let_def split: result.split option.split)

lemma routed_alone_any: "delivered (fst (route_msg reg fed threads vm)) = routed_alone reg fed vm"
  unfolding routed_alone_def by (subst route_msg_outcome) (rule refl)

section \<open>Runs with their history\<close>

text \<open>What a step has added at the end of a channel.\<close>

definition grown :: "'a list \<Rightarrow> 'a list \<Rightarrow> 'a list" where
  "grown xs ys = drop (length xs) ys"

lemma grown_simps [simp]: "grown xs xs = []" "grown xs (xs @ ys) = ys" "grown (x # xs) xs = []" "grown xs [] = []"
  "grown [] xs = xs"
  by (simp_all add: grown_def)

text \<open>
  A run from \<open>pipeline_run p0\<close> to \<open>p\<close>, with the messages that its ingress has accepted and the
  envelopes it has put into the federation channel.
\<close>

inductive history :: "lib \<Rightarrow> nat \<Rightarrow> (u8 list \<Rightarrow> bool) \<Rightarrow> 's pipeline \<Rightarrow> 's pipeline \<Rightarrow> u8 list list \<Rightarrow> envelope list \<Rightarrow> bool"
  for L :: lib and cap :: nat and may_inject :: "u8 list \<Rightarrow> bool" and p0 :: "'s pipeline" where
  start: "history L cap may_inject p0 (pipeline_run p0) [] []"
| step: "history L cap may_inject p0 p raws envs \<Longrightarrow> pstep L cap may_inject p p' \<Longrightarrow>
    history L cap may_inject p0 p' (raws @ grown (p_ingress p) (p_ingress p')) (envs @ grown (p_egress p) (p_egress p'))"

lemma history_reachable: "reachable L cap may p0 p \<longleftrightarrow> (\<exists>raws envs. history L cap may p0 p raws envs)"
proof
  show "\<exists>raws envs. history L cap may p0 p raws envs" if "reachable L cap may p0 p"
    using that by (induction rule: reachable.induct) (blast intro: history.intros)+
  show "reachable L cap may p0 p" if "\<exists>raws envs. history L cap may p0 p raws envs"
  proof -
    from that obtain raws envs where "history L cap may p0 p raws envs" by blast
    then show ?thesis
      by (induction rule: history.induct) (blast intro: reachable.intros)+
  qed
qed

section \<open>What is on its way\<close>

fun held_msg :: "'a option \<Rightarrow> 'a list" where
  "held_msg None = []"
| "held_msg (Some x) = [x]"

text \<open>
  The deliveries of the messages between the parse stage and the dispatch stage, in their order,
  and the messages that have passed the route stage for a worker.
\<close>

definition under_way :: "'s pipeline \<Rightarrow> departure list" where
  "under_way p = held_msg (p_route_hold p) @
     concat (map (routed_alone (p_registry p) (p_federation p)) (p_validated p @ held_msg (p_validate_hold p))) @
     concat (map (validated_alone (p_registry p) (p_federation p)) (p_parsed p @ held_msg (p_parse_hold p)))"

definition handed_on :: "'s pipeline \<Rightarrow> routed_msg list" where
  "handed_on p = map snd (fo_in (p_fan p)) @ p_routed p"

text \<open>
  What a step that takes nothing from the ingress does to them; envelopes are \<open>gone\<close> when the
  federation server has dropped its receiver.
\<close>

definition passes_on :: "'s pipeline \<Rightarrow> 's pipeline \<Rightarrow> bool" where
  "passes_on p p' \<longleftrightarrow>
     (\<exists>gone. to_egress (under_way p) = grown (p_egress p) (p_egress p') @ gone @ to_egress (under_way p') \<and>
        (p_egress_open p \<longrightarrow> gone = [])) \<and>
     (p_egress_open p' \<longrightarrow> p_egress_open p) \<and> (\<not> p_egress_open p \<longrightarrow> grown (p_egress p) (p_egress p') = []) \<and>
     handed_on p @ to_workers (under_way p) = handed_on p' @ to_workers (under_way p') \<and>
     (p_parse_up p' \<longrightarrow> p_parse_up p \<and> p_ingress p' = p_ingress p @ grown (p_ingress p) (p_ingress p'))"

text \<open>Steps that leave the stages alone pass everything on.\<close>

lemma passes_on_outer:
  assumes "under_way p' = under_way p" "fo_in (p_fan p') = fo_in (p_fan p)" "p_routed p' = p_routed p"
    and "p_parse_up p' = p_parse_up p" "p_ingress p' = p_ingress p \<or> (\<exists>raw. p_ingress p' = p_ingress p @ [raw])"
    and "grown (p_egress p) (p_egress p') = []" "p_egress_open p' \<longrightarrow> p_egress_open p"
  shows "passes_on p p'"
  using assms by (auto simp: passes_on_def handed_on_def)

lemma passes_on_work:
  assumes "pwork L cap p p'" "stopped_inv p" "parse_recv L p \<noteq> Some p'"
  shows "passes_on p p'"
  using assms(1)
proof cases
  case parse_recv
  with assms(3) show ?thesis by simp
next
  case parse_send
  then obtain env where "p_parse_hold p = Some env" "p' = p\<lparr>p_parse_hold := None, p_parsed := p_parsed p @ [env]\<rparr>"
    using assms(2) by (auto simp: parse_send_Some stopped_inv_def)
  then show ?thesis
    by (simp add: passes_on_def under_way_def handed_on_def)
next
  case parse_shutdown
  then show ?thesis
    by (auto simp: parse_shutdown_Some passes_on_def under_way_def handed_on_def)
next
  case validate_recv
  then obtain env r where "p_validate_hold p = None" "p_parsed p = env # r"
    "p' = (case validate_msg (p_registry p) env of Ok vm \<Rightarrow> p\<lparr>p_parsed := r, p_validate_hold := Some vm\<rparr>
       | _ \<Rightarrow> p\<lparr>p_parsed := r\<rparr>)"
    by (auto simp: validate_recv_def split: list.splits if_splits)
  then show ?thesis
    by (cases "validate_msg (p_registry p) env")
      (simp_all add: passes_on_def under_way_def handed_on_def validated_alone_def)
next
  case validate_send
  then obtain vm where "p_validate_hold p = Some vm" "p' = p\<lparr>p_validate_hold := None, p_validated := p_validated p @ [vm]\<rparr>"
    using assms(2) by (auto simp: validate_send_Some stopped_inv_def)
  then show ?thesis
    by (simp add: passes_on_def under_way_def handed_on_def)
next
  case validate_end
  then show ?thesis
    by (auto simp: validate_end_Some passes_on_def under_way_def handed_on_def)
next
  case route_recv
  then obtain vm r out threads' where r: "p_route_hold p = None" "p_validated p = vm # r"
    "route_msg (p_registry p) (p_federation p) (p_threads p) vm = (out, threads')"
    "p' = p\<lparr>p_validated := r, p_threads := threads',
        p_route_hold := (case out of Egress env \<Rightarrow> Some (Inl env) | Routed rm \<Rightarrow> Some (Inr rm) | Dropped e \<Rightarrow> None)\<rparr>"
    by (cases p) (auto simp: route_recv_def Let_def split: list.splits if_splits prod.splits route_outcome.splits)
  from routed_alone_any [of "p_registry p" "p_federation p" "p_threads p" vm] r(3)
  have "routed_alone (p_registry p) (p_federation p) vm = delivered out" by simp
  with r(1,2,4) show ?thesis
    by (cases out) (simp_all add: passes_on_def under_way_def handed_on_def)
next
  case route_send
  then obtain d where d: "p_route_hold p = Some d" and up: "p_dispatch_up p"
    using assms(2) by (auto simp: route_send_Some stopped_inv_def)
  have rest: "under_way (p\<lparr>p_route_hold := None, p_routed := rs\<rparr>) = tl (under_way p)"
    "under_way (p\<lparr>p_route_hold := None, p_egress := es\<rparr>) = tl (under_way p)"
    "under_way (p\<lparr>p_route_hold := None\<rparr>) = tl (under_way p)" "under_way p = d # tl (under_way p)" for rs es
    using d by (simp_all add: under_way_def)
  show ?thesis
  proof (cases d)
    case (Inl env)
    with route_send d consider (closed) "\<not> p_egress_open p" "p' = p\<lparr>p_route_hold := None\<rparr>"
      | (open_channel) "p_egress_open p" "p' = p\<lparr>p_route_hold := None, p_egress := p_egress p @ [env]\<rparr>"
      by (auto simp: route_send_Some)
    then show ?thesis
    proof cases
      case closed
      then show ?thesis
        unfolding passes_on_def closed(2) rest(3) using Inl by (subst (1 2) rest(4)) (simp add: handed_on_def)
    next
      case open_channel
      then show ?thesis
        unfolding passes_on_def open_channel(2) rest(2) using Inl by (subst (1 2) rest(4)) (simp add: handed_on_def)
    qed
  next
    case (Inr rm)
    with route_send d up have p': "p' = p\<lparr>p_route_hold := None, p_routed := p_routed p @ [rm]\<rparr>"
      by (simp add: route_send_Some)
    show ?thesis
      unfolding passes_on_def p' rest(1) using Inr by (subst (1 2) rest(4)) (simp add: handed_on_def)
  qed
next
  case route_end
  then show ?thesis
    by (auto simp: route_end_Some passes_on_def under_way_def handed_on_def)
next
  case dispatch_recv
  then show ?thesis
    by (auto simp: dispatch_recv_Some passes_on_def under_way_def handed_on_def)
next
  case dispatch_end
  then show ?thesis
    by (auto simp: dispatch_end_Some passes_on_def under_way_def handed_on_def)
next
  case (worker_take i)
  then show ?thesis
    by - (rule passes_on_outer; auto simp: worker_take_Some under_way_def dest: take_history)
next
  case (worker_run i)
  then show ?thesis
    by (cases rule: worker_run_Some) (rule passes_on_outer; auto simp: under_way_def dest: next_history)
next
  case (worker_respond fresh i)
  from worker_respond(2) show ?thesis
    by (cases rule: worker_respond_Some) (rule passes_on_outer; auto simp: under_way_def dest: next_history)
next
  case (worker_act i)
  then show ?thesis
    by (cases rule: worker_act_Some) (rule passes_on_outer; auto simp: under_way_def dest: next_history)
next
  case (worker_timeout i)
  then show ?thesis
    by - (rule passes_on_outer; auto simp: worker_timeout_def idle_timeout_Some under_way_def)
next
  case (worker_reap i)
  then show ?thesis
    by - (rule passes_on_outer; auto simp: worker_reap_def reap_Some under_way_def)
qed

section \<open>The pipeline follows the reference\<close>

text \<open>
  The messages accepted are those the parse stage has taken up and those still in the ingress;
  of the former, what has left the pipeline and what is under way is what the reference delivers,
  up to the envelopes dropped after the federation server dropped its receiver.
\<close>

definition follows :: "lib \<Rightarrow> 's pipeline \<Rightarrow> u8 list list \<Rightarrow> envelope list \<Rightarrow> bool" where
  "follows L p raws envs \<longleftrightarrow> (\<exists>taken rest gone. raws = taken @ rest \<and> (p_parse_up p \<longrightarrow> rest = p_ingress p) \<and>
     (\<forall>raw \<in> set taken. decode_envelope L raw \<noteq> Panic) \<and>
     (p_egress_open p \<longrightarrow> gone = []) \<and>
     envs @ gone @ to_egress (under_way p) = to_egress (sequential L (p_registry p) (p_federation p) taken) \<and>
     handed_on p @ to_workers (under_way p) = to_workers (sequential L (p_registry p) (p_federation p) taken))"

lemma follows_passes:
  assumes "follows L p raws envs" "passes_on p p'" "p_registry p' = p_registry p" "p_federation p' = p_federation p"
  shows "follows L p' (raws @ grown (p_ingress p) (p_ingress p')) (envs @ grown (p_egress p) (p_egress p'))"
proof -
  from assms(1) obtain taken rest gone where f: "raws = taken @ rest" "p_parse_up p \<longrightarrow> rest = p_ingress p"
    "\<forall>raw \<in> set taken. decode_envelope L raw \<noteq> Panic" "p_egress_open p \<longrightarrow> gone = []"
    "envs @ gone @ to_egress (under_way p) = to_egress (sequential L (p_registry p) (p_federation p) taken)"
    "handed_on p @ to_workers (under_way p) = to_workers (sequential L (p_registry p) (p_federation p) taken)"
    unfolding follows_def by blast
  from assms(2) obtain lost where p: "to_egress (under_way p) = grown (p_egress p) (p_egress p') @ lost @ to_egress (under_way p')"
    "p_egress_open p \<longrightarrow> lost = []" "p_egress_open p' \<longrightarrow> p_egress_open p"
    "\<not> p_egress_open p \<longrightarrow> grown (p_egress p) (p_egress p') = []"
    unfolding passes_on_def by blast
  have "(envs @ grown (p_egress p) (p_egress p')) @ (gone @ lost) @ to_egress (under_way p') =
      envs @ gone @ to_egress (under_way p)"
    using f(4) p by (cases "p_egress_open p") simp_all
  with f assms(2) p show ?thesis
    unfolding follows_def passes_on_def assms(3,4)
    by (intro exI [of _ taken] exI [of _ "rest @ grown (p_ingress p) (p_ingress p')"] exI [of _ "gone @ lost"]) auto
qed

lemma follows_parse:
  assumes "follows L p raws envs" "parse_recv L p = Some p'"
  shows "follows L p' (raws @ grown (p_ingress p) (p_ingress p')) (envs @ grown (p_egress p) (p_egress p'))"
proof -
  from assms(2) obtain raw r where p: "p_parse_up p" "p_parse_hold p = None" "p_ingress p = raw # r"
    and p': "p' = (case parse_msg_stage L raw of Ok env \<Rightarrow> p\<lparr>p_ingress := r, p_parse_hold := Some env\<rparr>
       | Err e \<Rightarrow> p\<lparr>p_ingress := r\<rparr> | Panic \<Rightarrow> p\<lparr>p_ingress := [], p_parse_up := False\<rparr>)"
    by (auto simp: parse_recv_Some)
  from assms(1) p obtain taken gone where f: "raws = taken @ raw # r"
    "\<forall>raw \<in> set taken. decode_envelope L raw \<noteq> Panic" "p_egress_open p \<longrightarrow> gone = []"
    "envs @ gone @ to_egress (under_way p) = to_egress (sequential L (p_registry p) (p_federation p) taken)"
    "handed_on p @ to_workers (under_way p) = to_workers (sequential L (p_registry p) (p_federation p) taken)"
    unfolding follows_def by auto
  have grown: "grown (p_ingress p) (p_ingress p') = []" "grown (p_egress p) (p_egress p') = []"
    using p(3) p' by (simp_all split: result.split)
  show ?thesis
  proof (cases "parse_msg_stage L raw")
    case (Ok env)
    with f p p' show ?thesis
      unfolding follows_def grown
      by (intro exI [of _ "taken @ [raw]"] exI [of _ r] exI [of _ gone])
        (auto simp: parse_msg_stage_def under_way_def handed_on_def)
  next
    case (Err e)
    with f p p' show ?thesis
      unfolding follows_def grown
      by (intro exI [of _ "taken @ [raw]"] exI [of _ r] exI [of _ gone])
        (auto simp: parse_msg_stage_def under_way_def handed_on_def)
  next
    case Panic
    with f p p' show ?thesis
      unfolding follows_def grown
      by (intro exI [of _ taken] exI [of _ "raw # r"] exI [of _ gone])
        (auto simp: under_way_def handed_on_def)
  qed
qed

lemma history_follows: "history L cap may p0 p raws envs \<Longrightarrow> follows L p raws envs"
proof (induction rule: history.induct)
  case start
  then show ?case
    by (simp add: follows_def under_way_def handed_on_def pipeline_run_def fan_new_def)
next
  case (step p raws envs p')
  have up: "stopped_inv p"
    using stopped_inv_reachable history_reachable step.hyps(1) by blast
  from step.hyps(2) show ?case
  proof cases
    case work
    show ?thesis
    proof (cases "parse_recv L p = Some p'")
      case True
      with step.IH show ?thesis by (rule follows_parse)
    next
      case False
      with follows_passes [OF step.IH passes_on_work [OF work up]] pwork_config [OF work] show ?thesis by simp
    qed
  next
    case (inject raw res)
    from inject_fields [OF inject(2)] have "passes_on p p'"
      by - (rule passes_on_outer; auto simp: under_way_def)
    moreover have "p_registry p' = p_registry p" "p_federation p' = p_federation p"
      using inject_fields [OF inject(2)] by auto
    ultimately show ?thesis by (rule follows_passes [OF step.IH])
  next
    case (drain env r)
    have "passes_on p p'"
      unfolding drain(1) using drain(2) by - (rule passes_on_outer; simp add: under_way_def)
    then show ?thesis
      by (rule follows_passes [OF step.IH]) (simp_all add: drain(1))
  next
    case hangup
    have "passes_on p p'"
      unfolding hangup by (rule passes_on_outer; simp add: under_way_def)
    then show ?thesis
      by (rule follows_passes [OF step.IH]) (simp_all add: hangup)
  next
    case signal
    have "passes_on p p'"
      unfolding signal by (rule passes_on_outer; simp add: under_way_def signal_shutdown_def)
    then show ?thesis
      by (rule follows_passes [OF step.IH]) (simp_all add: signal signal_shutdown_def)
  qed
qed

section \<open>What has arrived\<close>

definition stages_empty :: "'s pipeline \<Rightarrow> bool" where
  "stages_empty p \<longleftrightarrow> p_parse_hold p = None \<and> p_parsed p = [] \<and> p_validate_hold p = None \<and> p_validated p = [] \<and>
     p_route_hold p = None \<and> p_routed p = []"

lemma under_way_empty: "stages_empty p \<Longrightarrow> under_way p = [] \<and> p_routed p = []"
  by (simp add: stages_empty_def under_way_def)

text \<open>Of each thread, the messages handed over are those the reference delivers to it.\<close>

lemma for_key_handed:
  "gate_inv p \<Longrightarrow> for_key k (fo_in (p_fan p)) = filter (\<lambda>rm. thread_of rm = k) (map snd (fo_in (p_fan p)))"
  by (auto simp: gate_inv_def for_key_def filter_map comp_def intro!: arg_cong [where f = "map snd"] filter_cong)

lemma prefix_filter: "prefix xs ys \<Longrightarrow> prefix (filter P xs) (filter P ys)"
  by (auto simp: prefix_def)

lemma started_in_order:
  assumes "reachable L cap may p0 p" "threads_inv (p_threads p0)" "for_key k (fo_lost (p_fan p)) = []"
    and "prefix (map snd (fo_in (p_fan p))) rms"
  shows "prefix (for_key k (fo_started (p_fan p))) (filter (\<lambda>rm. thread_of rm = k) rms)"
proof -
  have "fifo_inv (p_fan p)"
    using base_inv_reachable [OF assms(1,2)] by (simp add: base_inv_def)
  from fifo_exact [OF this assms(3)] have "prefix (for_key k (fo_started (p_fan p))) (for_key k (fo_in (p_fan p)))"
    by simp
  also have "prefix (for_key k (fo_in (p_fan p))) (filter (\<lambda>rm. thread_of rm = k) rms)"
    using prefix_filter [OF assms(4)] for_key_handed [OF gate_inv_reachable [OF assms(1)]] by simp
  finally show ?thesis .
qed

end
