(* ===== verification/Race_Run.thy ===== *)
theory Race_Run
  imports Scenario Sequential_Laws
begin

text \<open>
  A message that passes the gates travels through an idle pipeline to a worker (\<open>journey\<close>).  With
  it, a run in which the dispatch observer of \<open>src/pipeline.rs\<close> hears that a call edge closed
  before it hears that it opened: a worker reports the edge only after it has sent the call, and
  the callee's worker may answer in between.
\<close>

section \<open>A journey through the stages\<close>

definition idle :: "'s pipeline \<Rightarrow> bool" where
  "idle p \<longleftrightarrow> running p \<and> p_parse_hold p = None \<and> p_parsed p = [] \<and> p_validate_hold p = None \<and>
     p_validated p = [] \<and> p_route_hold p = None \<and> p_routed p = []"

lemma journey:
  assumes "reachable L cap may p0 p" "idle p" "p_ingress p = [raw]"
    and "decode_envelope L raw = Ok env" "validate_msg (p_registry p) env = Ok vm"
    and "route_msg (p_registry p) (p_federation p) (p_threads p) vm = (Routed rm, threads')"
  shows "reachable L cap may p0
    (p\<lparr>p_ingress := [], p_threads := threads', p_fan := handoff (thread_of rm) rm (p_fan p)\<rparr>)"
proof -
  note i = assms(2) [unfolded idle_def running_def]
  let ?p1 = "p\<lparr>p_ingress := [], p_parse_hold := Some env\<rparr>"
  let ?p2 = "p\<lparr>p_ingress := [], p_parsed := [env]\<rparr>"
  let ?p3 = "p\<lparr>p_ingress := [], p_validate_hold := Some vm\<rparr>"
  let ?p4 = "p\<lparr>p_ingress := [], p_validated := [vm]\<rparr>"
  let ?p5 = "p\<lparr>p_ingress := [], p_threads := threads', p_route_hold := Some (Inr rm)\<rparr>"
  let ?p6 = "p\<lparr>p_ingress := [], p_threads := threads', p_routed := [rm]\<rparr>"
  let ?p7 = "p\<lparr>p_ingress := [], p_threads := threads', p_fan := handoff (thread_of rm) rm (p_fan p)\<rparr>"
  note room = has_room_def CHANNEL_BUFFER_def
  note work = reachable.step [OF _ pstep.work]
  have "parse_recv L p = Some ?p1"
    using assms(3,4) i by (simp add: parse_recv_def parse_msg_stage_def)
  note r = work [OF assms(1) pwork.parse_recv, OF this]
  have "parse_send ?p1 = Some ?p2"
    using i by (cases p) (simp add: parse_send_def room)
  note r = work [OF r pwork.parse_send, OF this]
  have "validate_recv ?p2 = Some ?p3"
    using assms(5) i by (cases p) (simp add: validate_recv_def)
  note r = work [OF r pwork.validate_recv, OF this]
  have "validate_send ?p3 = Some ?p4"
    using i by (cases p) (simp add: validate_send_def room)
  note r = work [OF r pwork.validate_send, OF this]
  have "route_recv ?p4 = Some ?p5"
    using assms(6) i by (cases p) (simp add: route_recv_def)
  note r = work [OF r pwork.route_recv, OF this]
  have "route_send cap ?p5 = Some ?p6"
    using i by (cases p) (simp add: route_send_def room)
  note r = work [OF r pwork.route_send, OF this]
  have "dispatch_recv ?p6 = Some ?p7"
    using i by (cases p) (simp add: dispatch_recv_def)
  show ?thesis
    by (rule work [OF r pwork.dispatch_recv, OF \<open>dispatch_recv ?p6 = Some ?p7\<close>])
qed

text \<open>The run of the echo pipeline, with its history.\<close>

lemma demo_history: "history sample_lib 1 (\<lambda>_. True) demo_start demo8 [demo_raw] []"
proof -
  note start = history.start [of sample_lib 1 "\<lambda>_. True" demo_start]
  note h = history.step [OF start pstep.inject [where raw = demo_raw, OF TrueI demo_steps(1)]]
  note h = history.step [OF h pstep.work [OF pwork.parse_recv [OF demo_steps(2)]]]
  note h = history.step [OF h pstep.work [OF pwork.parse_send [OF demo_steps(3)]]]
  note h = history.step [OF h pstep.work [OF pwork.validate_recv [OF demo_steps(4)]]]
  note h = history.step [OF h pstep.work [OF pwork.validate_send [OF demo_steps(5)]]]
  note h = history.step [OF h pstep.work [OF pwork.route_recv [OF demo_steps(6)]]]
  note h = history.step [OF h pstep.work [OF pwork.route_send [OF demo_steps(7)]]]
  note h = history.step [OF h pstep.work [OF pwork.dispatch_recv [OF demo_steps(8)]]]
  then show ?thesis
    by (simp add: demo_states)
qed

section \<open>A caller and its callee\<close>

text \<open>\<open>front\<close> passes what it is asked on to the echo listener, as a sub-call.\<close>

definition front_handler :: "unit handler_impl" where
  "front_handler = fn_handler (\<lambda>s p c. (Ok (HSend (flat ''echo'') (payload_new ''Greeting'' (vp_value p))), s))"

definition race_registry :: "unit listener_registry" where
  "race_registry = registry_register demo_registry ''front'' ''Ask'' front_handler False [] ''Front'' None"

definition race_start :: "unit pipeline" where
  "race_start = with_dispatch_observer (pipeline_new race_registry thread_new ())"

definition ask_env :: envelope where
  "ask_env = \<lparr>e_meta = \<lparr>m_from = flat ''alice'', m_to = Some (flat ''front''), m_thread = ''t1'',
      m_provenance = EMPTY\<rparr>, e_payload = payload_single ''Ask'' ''text'' ''hi''\<rparr>"

definition call_env :: envelope where
  "call_env = envelope_from ''front'' (flat ''echo'') ''t2'' EMPTY (payload_single ''Greeting'' ''text'' ''hi'')"

abbreviation race_raw :: "envelope \<Rightarrow> u8 list" where
  "race_raw env \<equiv> bytes_of sample_lib (envelope_events sample_lib env)"

definition plain_rm :: "envelope \<Rightarrow> string \<Rightarrow> routed_msg" where
  "plain_rm env tgt = \<lparr>rm_envelope = env,
     rm_payload = \<lparr>vp_tag = pl_tag (e_payload env), vp_value = pl_value (e_payload env)\<rparr>, rm_target = tgt\<rparr>"

lemma front_plain [simp]: "plain_name ''front''"
  by (simp add: plain_name_def)

lemma race_wf: "wf_envelope sample_lib ask_env" "wf_envelope sample_lib call_env"
  by (simp_all add: wf_envelope_def wf_meta_def ask_env_def call_env_def envelope_from_def wf_flat flat_display
      meta_text_printable payload_single_def attr_ok_def no_markup_def printable_utf8 text_ok_def code_def)

lemma race_norm: "norm_envelope ask_env = ask_env" "norm_envelope call_env = call_env"
  by (simp_all add: norm_envelope_def ask_env_def call_env_def envelope_from_def payload_single_def
      xml_trim_printable code_def)

lemma race_decode: "decode_envelope sample_lib (race_raw ask_env) = Ok ask_env"
    "decode_envelope sample_lib (race_raw call_env) = Ok call_env"
  using decode_encode_env [OF sample_xml_laws sample_escape_laws race_wf(1)]
    decode_encode_env [OF sample_xml_laws sample_escape_laws race_wf(2)] race_norm
  by (simp_all add: encode_envelope_bytes sample_xml_laws)

lemma race_validate:
  "validate_msg race_registry env =
     Ok \<lparr>vm_envelope = env, vm_payload = \<lparr>vp_tag = pl_tag (e_payload env), vp_value = pl_value (e_payload env)\<rparr>\<rparr>"
proof -
  have "schema_get (lr_schemas race_registry) tag = None" for tag
    by (simp add: race_registry_def demo_registry_def registry_register_def registry_new_def schemas_new_def
        schema_get_def)
  from validate_value_unknown [OF this] show ?thesis
    by (simp add: validate_msg_Ok)
qed

lemma race_lower [simp]: "to_lowercase ''front'' = ''front''" "to_lowercase ''Ask'' = ''ask''"
  by code_simp+

lemma race_resolve:
  "\<exists>e. resolve (lr_routing race_registry) (Some ''front'') ''Ask'' = Ok [e] \<and> le_name e = ''front''"
  "\<exists>e. resolve (lr_routing race_registry) (Some ''echo'') ''Greeting'' = Ok [e] \<and> le_name e = ''echo''"
  by (simp_all add: race_registry_def demo_registry_def registry_register_def registry_new_def routing_register_def
      routing_new_def resolve_def Let_def)

lemma race_peers: "enforce_peers (lr_routing race_registry) n m = Ok ()"
  by (simp add: race_registry_def demo_registry_def registry_register_def registry_new_def routing_register_def
      routing_new_def enforce_peers_def Let_def)

definition race_threads1 :: thread_registry where
  "race_threads1 = bind_thread thread_new ''alice.front'' ''t1''"

definition race_threads2 :: thread_registry where
  "race_threads2 = bind_thread race_threads1 ''alice.front.echo'' ''t2''"

lemma race_route_ask:
  "route_msg race_registry None thread_new
     \<lparr>vm_envelope = ask_env, vm_payload = \<lparr>vp_tag = pl_tag (e_payload ask_env), vp_value = pl_value (e_payload ask_env)\<rparr>\<rparr> =
     (Routed (plain_rm ask_env ''front''), race_threads1)"
proof -
  from race_resolve(1) obtain e where e: "resolve (lr_routing race_registry) (Some ''front'') ''Ask'' = Ok [e]" "le_name e = ''front''"
    by blast
  then show ?thesis
    by (simp add: route_msg_def ask_env_def payload_single_def race_peers sender_name_def name_or_empty_def
        race_threads1_def register_if_needed_def thread_lookup_def register_thread_def thread_new_def
        plain_rm_def Let_def)
qed

lemma race_route_call:
  "route_msg race_registry None race_threads2
     \<lparr>vm_envelope = call_env, vm_payload = \<lparr>vp_tag = pl_tag (e_payload call_env), vp_value = pl_value (e_payload call_env)\<rparr>\<rparr> =
     (Routed (plain_rm call_env ''echo''), race_threads2)"
proof -
  from race_resolve(2) obtain e where e: "resolve (lr_routing race_registry) (Some ''echo'') ''Greeting'' = Ok [e]" "le_name e = ''echo''"
    by blast
  then show ?thesis
    by (simp add: route_msg_def call_env_def envelope_from_def payload_single_def race_peers sender_name_def
        name_or_empty_def register_if_needed_def thread_lookup_def race_threads2_def plain_rm_def Let_def)
qed

lemma race_handlers:
  "get_handler race_registry ''front'' = Some front_handler" "get_handler race_registry ''echo'' = Some echo_handler"
  by (simp_all add: race_registry_def demo_registry_def registry_register_def get_handler_def)

abbreviation race_dx :: "unit dispatch_ctx" where
  "race_dx \<equiv> \<lparr>dx_registry = race_registry, dx_middleware = [], dx_observed = True\<rparr>"

lemma race_call:
  "handle_message race_dx (plain_rm ask_env ''front'') () =
     (Some (Ok (HSend (flat ''echo'') (payload_single ''Greeting'' ''text'' ''hi''))), ())"
  "respond sample_lib race_dx race_threads1 ''t2'' (plain_rm ask_env ''front'')
     (HSend (flat ''echo'') (payload_single ''Greeting'' ''text'' ''hi'')) =
     (race_threads2, [ASend (race_raw call_env), AOpen ''front'' ''echo'' ''t2'' Sync])"
proof -
  have "run_handler race_dx front_handler (plain_rm ask_env ''front'') () =
      (Ok (HSend (flat ''echo'') (payload_single ''Greeting'' ''text'' ''hi'')), ())"
    by (simp add: run_handler_def front_handler_def fn_handler_def plain_rm_def ask_env_def payload_single_def payload_new_def)
  then show "handle_message race_dx (plain_rm ask_env ''front'') () =
     (Some (Ok (HSend (flat ''echo'') (payload_single ''Greeting'' ''text'' ''hi''))), ())"
    by (simp add: handle_message_def race_handlers plain_rm_def)
  have "extend_chain race_threads1 ''t2'' ''t1'' ''echo'' = (''t2'', race_threads2)"
    by (simp add: extend_chain_def race_threads1_def race_threads2_def thread_new_def)
  moreover have "encode_envelope sample_lib (envelope_from ''front'' (flat ''echo'') ''t2'' EMPTY
      (payload_single ''Greeting'' ''text'' ''hi'')) = Ok (race_raw call_env)"
    by (simp add: call_env_def encode_envelope_bytes sample_xml_laws)
  ultimately show "respond sample_lib race_dx race_threads1 ''t2'' (plain_rm ask_env ''front'')
     (HSend (flat ''echo'') (payload_single ''Greeting'' ''text'' ''hi'')) =
     (race_threads2, [ASend (race_raw call_env), AOpen ''front'' ''echo'' ''t2'' Sync])"
    by (simp add: respond_send_def race_peers on_encoded_def open_edge_def
        plain_rm_def ask_env_def name_or_empty_def Let_def)
qed

lemma race_answer:
  "handle_message race_dx (plain_rm call_env ''echo'') () =
     (Some (Ok (HReply (to_payload (rm_payload (plain_rm call_env ''echo''))))), ())"
  by (simp add: handle_message_def race_handlers run_handler_def echo_handler_def fn_handler_def)
    (simp add: plain_rm_def race_handlers run_handler_def echo_handler_def fn_handler_def)

section \<open>The run\<close>

abbreviation ask_rm :: routed_msg where "ask_rm \<equiv> plain_rm ask_env ''front''"
abbreviation call_rm :: routed_msg where "call_rm \<equiv> plain_rm call_env ''echo''"

definition race_fan1 :: "(routed_msg, action) fan_out" where
  "race_fan1 = handoff ''t1'' ask_rm fan_new"

definition race_fan2 :: "action list \<Rightarrow> (routed_msg, action) fan_out" where
  "race_fan2 acts = \<lparr>wmap = [''t1'' \<mapsto> 0], tasks = [0 \<mapsto> \<lparr>wk_key = ''t1'', wk_queue = [], wk_state = Busy acts\<rparr>],
     next_task = 1, fo_in = [(''t1'', ask_rm)], fo_started = [(''t1'', ask_rm)], fo_lost = []\<rparr>"

definition race_fan3 :: "action list \<Rightarrow> action list \<Rightarrow> (routed_msg, action) fan_out" where
  "race_fan3 acts acts' = \<lparr>wmap = [''t1'' \<mapsto> 0, ''t2'' \<mapsto> 1],
     tasks = [0 \<mapsto> \<lparr>wk_key = ''t1'', wk_queue = [], wk_state = Busy acts\<rparr>,
              1 \<mapsto> \<lparr>wk_key = ''t2'', wk_queue = [], wk_state = Busy acts'\<rparr>],
     next_task = 2, fo_in = [(''t1'', ask_rm), (''t2'', call_rm)],
     fo_started = [(''t1'', ask_rm), (''t2'', call_rm)], fo_lost = []\<rparr>"

lemma race_take1: "\<exists>f. take_message 0 race_fan1 = Some (ask_rm, f) \<and> set_actions 0 acts f = race_fan2 acts"
  by (simp add: race_fan1_def handoff_none fan_new_def take_message_def set_actions_def race_fan2_def)

lemma race_take2:
  "\<exists>f. take_message 1 (handoff ''t2'' call_rm (race_fan2 acts)) = Some (call_rm, f) \<and> set_actions 1 acts' f = race_fan3 acts acts'"
  by (simp add: handoff_none race_fan2_def take_message_def set_actions_def race_fan3_def fun_eq_iff)

lemma race_set:
  "set_actions 0 acts (race_fan2 acts') = race_fan2 acts"
  "set_actions 1 acts (race_fan3 acts1 acts') = race_fan3 acts1 acts"
  by (simp_all add: set_actions_def race_fan2_def race_fan3_def fun_eq_iff)

lemma race_next:
  "next_action 0 (race_fan2 (a # acts)) = Some (Some a, race_fan2 acts)"
  "next_action 0 (race_fan3 (a # acts) acts') = Some (Some a, race_fan3 acts acts')"
  "next_action 1 (race_fan3 acts (a # acts')) = Some (Some a, race_fan3 acts acts')"
  by (simp_all add: next_action_def race_fan2_def race_fan3_def fun_eq_iff)

lemmas race_start_simps = race_start_def with_dispatch_observer_def pipeline_new_def pipeline_run_def

abbreviation race_at :: "u8 list list \<Rightarrow> thread_registry \<Rightarrow> (routed_msg, action) fan_out \<Rightarrow> action list \<Rightarrow> unit pipeline" where
  "race_at xs ts f es \<equiv> (pipeline_run race_start)\<lparr>p_ingress := xs, p_threads := ts, p_fan := f, p_events := es\<rparr>"

lemma race_ctx: "dispatch_ctx_of (race_at xs ts f es) = race_dx"
  by (simp add: dispatch_ctx_of_def race_start_simps)

lemma race_idle [simp]: "idle (race_at xs ts f es)"
  by (simp add: idle_def running_def race_start_simps)


lemma race_called:
  "reachable sample_lib 1 (\<lambda>raw. raw = race_raw ask_env) race_start
     (race_at [race_raw call_env] race_threads2 (race_fan2 [AOpen ''front'' ''echo'' ''t2'' Sync]) [])"
proof -
  note work = reachable.step [OF _ pstep.work]
  have s: "inject (race_raw ask_env) (pipeline_run race_start) =
      Some (Ok (), race_at [race_raw ask_env] thread_new fan_new [])"
    by (simp add: inject_def race_start_simps has_room_def CHANNEL_BUFFER_def)
  then have "pstep sample_lib 1 (\<lambda>raw. raw = race_raw ask_env) (pipeline_run race_start)
      (race_at [race_raw ask_env] thread_new fan_new [])"
    by (auto intro: pstep.inject)
  note r = reachable.step [OF reachable.start this]
  note r = journey [OF r race_idle _ race_decode(1), where rm = ask_rm and threads' = race_threads1 and
      vm = "\<lparr>vm_envelope = ask_env,
      vm_payload = \<lparr>vp_tag = pl_tag (e_payload ask_env), vp_value = pl_value (e_payload ask_env)\<rparr>\<rparr>"]
  have r: "reachable sample_lib 1 (\<lambda>raw. raw = race_raw ask_env) race_start (race_at [] race_threads1 race_fan1 [])"
    using r race_validate [of ask_env] race_route_ask
    by (simp add: race_start_simps race_fan1_def plain_rm_def ask_env_def)
  let ?send = "HSend (flat ''echo'') (payload_single ''Greeting'' ''text'' ''hi'')"
  have "worker_take 0 (race_at [] race_threads1 race_fan1 []) = Some (race_at [] race_threads1 (race_fan2 [ARun ask_rm]) [])"
    using race_take1 [of "[ARun ask_rm]"] by (auto simp: worker_take_def)
  note r = work [OF r pwork.worker_take, OF this]
  have "worker_run 0 (race_at [] race_threads1 (race_fan2 [ARun ask_rm]) []) =
      Some (race_at [] race_threads1 (race_fan2 [ARespond ask_rm ?send]) [])"
    by (simp add: worker_run_def race_next race_ctx race_call(1) race_set)
  note r = work [OF r pwork.worker_run, OF this]
  have "worker_respond sample_lib ''t2'' 0 (race_at [] race_threads1 (race_fan2 [ARespond ask_rm ?send]) []) =
      Some (race_at [] race_threads2 (race_fan2 [ASend (race_raw call_env), AOpen ''front'' ''echo'' ''t2'' Sync]) [])"
    by (simp add: worker_respond_def race_next race_ctx race_call(2) race_set del: respond.simps)
  note r = work [OF r pwork.worker_respond, OF _ this]
  have "worker_act 0 (race_at [] race_threads2 (race_fan2 [ASend (race_raw call_env), AOpen ''front'' ''echo'' ''t2'' Sync]) []) =
     Some (race_at [race_raw call_env] race_threads2 (race_fan2 [AOpen ''front'' ''echo'' ''t2'' Sync]) [])"
    by (simp add: worker_act_def race_next) (simp add: race_start_simps has_room_def CHANNEL_BUFFER_def)
  from work [OF r pwork.worker_act, OF _ this] show ?thesis
    by (simp add: race_threads1_def thread_new_def)
qed

lemma race_closed_first:
  "\<exists>p. reachable sample_lib 1 (\<lambda>raw. raw = race_raw ask_env) race_start p \<and>
     p_events p = [AClose ''t2'', AOpen ''front'' ''echo'' ''t2'' Sync]"
proof -
  note work = reachable.step [OF _ pstep.work]
  let ?o = "AOpen ''front'' ''echo'' ''t2'' Sync"
  note r = journey [OF race_called race_idle _ race_decode(2), where rm = call_rm and threads' = race_threads2 and
      vm = "\<lparr>vm_envelope = call_env,
      vm_payload = \<lparr>vp_tag = pl_tag (e_payload call_env), vp_value = pl_value (e_payload call_env)\<rparr>\<rparr>"]
  have t: "thread_of call_rm = ''t2''"
    by (simp add: plain_rm_def call_env_def envelope_from_def)
  have r: "reachable sample_lib 1 (\<lambda>raw. raw = race_raw ask_env) race_start
      (race_at [] race_threads2 (handoff ''t2'' call_rm (race_fan2 [?o])) [])"
    using r race_validate [of call_env] race_route_call by (simp add: race_start_simps t)
  let ?reply = "HReply (to_payload (rm_payload call_rm))"
  have "worker_take 1 (race_at [] race_threads2 (handoff ''t2'' call_rm (race_fan2 [?o])) []) =
      Some (race_at [] race_threads2 (race_fan3 [?o] [ARun call_rm]) [])"
    using race_take2 [of "[?o]" "[ARun call_rm]"] by (auto simp: worker_take_def)
  note r = work [OF r pwork.worker_take, OF this]
  have "worker_run 1 (race_at [] race_threads2 (race_fan3 [?o] [ARun call_rm]) []) =
      Some (race_at [] race_threads2 (race_fan3 [?o] [AClose ''t2'', ARespond call_rm ?reply]) [])"
    by (simp add: worker_run_def race_next race_ctx race_answer race_set close_edge_def t del: One_nat_def)
  note r = work [OF r pwork.worker_run, OF this]
  have "worker_act 1 (race_at [] race_threads2 (race_fan3 [?o] [AClose ''t2'', ARespond call_rm ?reply]) []) =
      Some (race_at [] race_threads2 (race_fan3 [?o] [ARespond call_rm ?reply]) [AClose ''t2''])"
    by (simp add: worker_act_def race_next del: One_nat_def)
  note r = work [OF r pwork.worker_act, OF this]
  have "worker_act 0 (race_at [] race_threads2 (race_fan3 [?o] [ARespond call_rm ?reply]) [AClose ''t2'']) =
      Some (race_at [] race_threads2 (race_fan3 [] [ARespond call_rm ?reply]) [AClose ''t2'', ?o])"
    by (simp add: worker_act_def race_next del: One_nat_def)
  note r = work [OF r pwork.worker_act, OF this]
  then show ?thesis by fastforce
qed

section \<open>Shutting down\<close>

text \<open>The idle pipeline after the shutdown signal, stage by stage.\<close>

definition stop1 :: "unit pipeline" where
  "stop1 = (pipeline_run demo_start)\<lparr>p_parse_up := False\<rparr>"

definition stop2 :: "unit pipeline" where
  "stop2 = stop1\<lparr>p_validate_up := False\<rparr>"

definition stop3 :: "unit pipeline" where
  "stop3 = stop2\<lparr>p_route_up := False, p_dispatch_up := False\<rparr>"

lemma stop_steps: "parse_shutdown (signal_shutdown (pipeline_run demo_start)) = Some stop1"
    "validate_end stop1 = Some stop2" "route_end stop2 = Some (stop2\<lparr>p_route_up := False\<rparr>)"
    "dispatch_end (stop2\<lparr>p_route_up := False\<rparr>) = Some stop3"
  by (simp_all add: parse_shutdown_def validate_end_def route_end_def dispatch_end_def signal_shutdown_def
      stop1_def stop2_def stop3_def demo_states)

lemma stop_runs: "reachable sample_lib 1 (\<lambda>_. True) demo_start stop1" "reachable sample_lib 1 (\<lambda>_. True) demo_start stop3"
proof -
  note work = reachable.step [OF _ pstep.work]
  note r = reachable.step [OF reachable.start pstep.signal]
  note r1 = work [OF r pwork.parse_shutdown [OF stop_steps(1)]]
  show "reachable sample_lib 1 (\<lambda>_. True) demo_start stop1" by (rule r1)
  note r2 = work [OF r1 pwork.validate_end [OF stop_steps(2)]]
  note r3 = work [OF r2 pwork.route_end [OF stop_steps(3)]]
  show "reachable sample_lib 1 (\<lambda>_. True) demo_start stop3"
    by (rule work [OF r3 pwork.dispatch_end [OF stop_steps(4)]])
qed

lemma stop3_fields [simp]:
  "p_ingress stop3 = []" "p_parse_hold stop3 = None" "p_parsed stop3 = []" "p_validate_hold stop3 = None"
  "p_validated stop3 = []" "p_route_hold stop3 = None" "p_routed stop3 = []" "\<not> p_parse_up stop3"
  "\<not> p_validate_up stop3" "\<not> p_route_up stop3" "\<not> p_dispatch_up stop3" "tasks (p_fan stop3) i = None"
  by (simp_all add: stop1_def stop2_def stop3_def demo_states fan_new_def)

lemma stop3_stuck: "\<not> pwork sample_lib 1 stop3 p'"
proof
  assume "pwork sample_lib 1 stop3 p'"
  then show False
    by cases (simp_all add: stage_defs worker_defs take_message_def next_action_def idle_timeout_def reap_def)
qed

end
