(* ===== verification/Typed_Laws.thy ===== *)
theory Typed_Laws
  imports Taint_Laws
begin

text \<open>
  Whatever the decoder accepts has well-formed addresses, and so has everything in the running
  pipeline: what a handler answers is encoded, and only what decodes again goes on.
\<close>

section \<open>Addresses of decoded envelopes\<close>

definition typed_env :: "envelope \<Rightarrow> bool" where
  "typed_env env \<longleftrightarrow> wf_address (m_from (e_meta env)) \<and> pred_option wf_address (m_to (e_meta env))"

definition typed_meta :: "meta_fields \<Rightarrow> bool" where
  "typed_meta mf \<longleftrightarrow> pred_option wf_address (mf_from mf) \<and> pred_option wf_address (mf_to mf)"

lemma set_meta_field_typed: "set_meta_field tag s mf = Ok mf' \<Longrightarrow> typed_meta mf \<Longrightarrow> typed_meta mf'"
  by (auto simp: set_meta_field_def typed_meta_def result_iffs split: if_splits dest: parse_address_wf)

lemma read_meta_typed: "read_meta L field mf rd = Ok (mf', r) \<Longrightarrow> typed_meta mf \<Longrightarrow> typed_meta mf'"
proof (induction L field mf rd rule: read_meta.induct)
  case (4 L field mf t rd)
  show ?case
  proof (cases field)
    case None
    with 4 show ?thesis by simp
  next
    case (Some name)
    with "4.prems"(1) obtain u m where u: "unescape L t = Ok u"
      and m: "set_meta_field name (trim u) mf = Ok m" and rest: "read_meta L field m rd = Ok (mf', r)"
      by (auto simp: result_iffs)
    from "4.IH"(2) [OF Some u m rest] set_meta_field_typed [OF m "4.prems"(2)] show ?thesis by simp
  qed
qed (auto split: if_splits)

lemma decode_loop_typed:
  "decode_loop L mf pl found rd = Ok (mf', pl', found') \<Longrightarrow> typed_meta mf \<Longrightarrow> typed_meta mf'"
proof (induction L mf pl found rd rule: decode_loop.induct)
  case (1 L mf pl found rd)
  show ?case
  proof (cases rd)
    case Nil
    with 1 show ?thesis by (simp add: decode_loop.simps [of L mf pl found "[]"])
  next
    case (Cons item r)
    show ?thesis
    proof (cases item)
      case (Inl e)
      with 1 Cons show ?thesis by (simp add: decode_loop.simps [of L mf pl found "_ # _"])
    next
      case (Inr ev)
      note IH = "1.IH" [OF Cons Inr]
      from "1.prems"(1) Cons Inr have "decode_loop L mf pl found (Inr ev # r) = Ok (mf', pl', found')" by simp
      from trans [OF decode_loop.simps [symmetric] this] "1.prems"(2) show ?thesis
        by (cases ev) (auto simp: result_iffs split: if_splits prod.splits dest: IH read_meta_typed)
    qed
  qed
qed

lemma decode_typed: "decode_envelope L raw = Ok env \<Longrightarrow> typed_env env"
proof -
  assume "decode_envelope L raw = Ok env"
  from decode_envelope_Ok [OF this] obtain mf pl
    where d: "decode_loop L no_meta None False (xml_read L raw) = Ok (mf, Some pl, True)"
    and "mf_from mf = Some (m_from (e_meta env))" "m_to (e_meta env) = mf_to mf" by blast
  moreover have "typed_meta mf"
    using decode_loop_typed [OF d] by (simp add: typed_meta_def)
  ultimately show ?thesis
    by (simp add: typed_env_def typed_meta_def)
qed

section \<open>Envelopes in the running pipeline\<close>

lemma all_raw_typed: "raw_holds L typed_env raw"
  by (simp add: raw_holds_def decode_typed)

lemma answers_typed: "answers_keep L typed_env dx"
  by (simp add: answers_keep_def all_raw_typed)

lemmas typed_reachable = env_inv_reachable [where P = typed_env, OF _ all_raw_typed _ _ answers_typed]

lemma wf_address_organism:
  assumes "wf_address a"
  shows "\<exists>n. organism a = Some n \<and> n \<noteq> []" "\<exists>n. node a = Some n \<and> n \<noteq> []" "\<exists>b. instance_address a = Ok b"
proof -
  have s: "segments a \<noteq> []" "\<And>s. s \<in> set (segments a) \<Longrightarrow> seg_name s \<noteq> []"
    using assms by (auto simp: wf_address_def wf_segment_def list_all_iff)
  note i = organism_index_less [OF s(1)]
  show "\<exists>n. organism a = Some n \<and> n \<noteq> []"
    using i s(2) by (simp add: organism_def get_at_def)
  show "\<exists>n. node a = Some n \<and> n \<noteq> []"
    using s by (simp add: node_def get_at_def)
  show "\<exists>b. instance_address a = Ok b"
    using i by (simp add: instance_address_def)
qed

lemma typed_sender: "typed_env env \<Longrightarrow> sender_name env \<noteq> []"
  using wf_address_organism(1) by (fastforce simp: typed_env_def sender_name_def name_or_empty_def)

end
