(* ===== verification/Identity_Laws.thy ===== *)
theory Identity_Laws
  imports Taint_Laws
begin

text \<open>
  Who a message is from.  A handler chooses what it answers and to whom, not in whose name: the
  origin of everything the pipeline holds came in with an injected message or is the name of a
  registered listener, except that of the acknowledgement of a spawn.
\<close>

definition listener_names_ok :: "'s listener_registry \<Rightarrow> bool" where
  "listener_names_ok reg \<longleftrightarrow> (\<forall>n. get_handler reg n \<noteq> None \<longrightarrow> plain_name n \<and> meta_text n)"

definition stamped :: "lib \<Rightarrow> (u8 list \<Rightarrow> bool) \<Rightarrow> 's listener_registry \<Rightarrow> envelope \<Rightarrow> bool" where
  "stamped L may reg env \<longleftrightarrow>
     (\<exists>raw e. may raw \<and> decode_envelope L raw = Ok e \<and> m_from (e_meta env) = m_from (e_meta e)) \<or>
     (\<exists>n. get_handler reg n \<noteq> None \<and> m_from (e_meta env) = flat n) \<or>
     (\<exists>n. get_handler reg n \<noteq> None \<and> m_to (e_meta env) = Some (flat n) \<and> pl_tag (e_payload env) = ''SpawnAck'')"

lemma injected_stamped: "may raw \<Longrightarrow> raw_holds L (stamped L may reg) raw"
  by (auto simp: raw_holds_def stamped_def)

lemma flat_addr_ok: "plain_name n \<Longrightarrow> meta_text n \<Longrightarrow> addr_ok (flat n)"
  by (simp add: addr_ok_def wf_flat)

lemma spawn_ack_tag: "pl_tag (spawn_ack ok) = ''SpawnAck''" "attr_ok ''SpawnAck''"
  by (simp_all add: spawn_ack_def payload_new_def attr_ok_def no_markup_def printable_utf8 code_def)

lemma answers_stamped:
  assumes "xml_laws L" "escape_laws L" "registry_wf (dx_registry dx)" "listener_names_ok (dx_registry dx)"
  shows "answers_keep L (stamped L may (dx_registry dx)) dx"
  unfolding answers_keep_def
proof (intro allI impI ballI)
  fix threads fresh msg r raw
  assume adm: "admissible (dx_registry dx) msg" and raw: "raw \<in> set (sends (snd (respond L dx threads fresh msg r)))"
  from admissible_handler [OF assms(3) adm] have t: "get_handler (dx_registry dx) (rm_target msg) \<noteq> None" by auto
  with assms(4) have ok: "addr_ok (flat (rm_target msg))"
    by (auto simp: listener_names_ok_def intro: flat_addr_ok)
  obtain threads' acts where res: "respond L dx threads fresh msg r = (threads', acts)" by fastforce
  with raw respond_sends [OF assms(1) res] obtain env where
    env: "env \<in> set (response_envelopes dx threads fresh msg r)" and raw: "raw = bytes_of L (envelope_events L env)"
    by auto
  show "raw_holds L (stamped L may (dx_registry dx)) raw"
    unfolding raw_holds_def
  proof (intro allI impI)
    fix env' assume "decode_envelope L raw = Ok env'"
    note keeps = decode_keeps [OF assms(1,2) this [unfolded raw]]
    from response_from [OF env] show "stamped L may (dx_registry dx) env'"
    proof (elim disjE exE conjE)
      assume "m_from (e_meta env) = flat (rm_target msg)"
      with keeps(2) ok t show ?thesis unfolding stamped_def by auto
    next
      fix to pl b assume "m_to (e_meta env) = Some (flat (rm_target msg))" "e_payload env = spawn_ack b"
      with keeps(3,4) ok t spawn_ack_tag show ?thesis unfolding stamped_def by auto
    qed
  qed
qed

lemma stamped_reachable:
  assumes "xml_laws L" "escape_laws L" "reachable L cap may p0 p" "threads_inv (p_threads p0)" "p_egress p0 = []"
    and "registry_wf (p_registry p0)" "listener_names_ok (p_registry p0)"
  shows "base_inv p \<and> gate_inv p \<and> env_inv L (stamped L may (p_registry p0)) p"
proof (rule env_inv_reachable [OF assms(3) injected_stamped assms(4,5)])
  have "p_registry p0 = dx_registry (dispatch_ctx_of (pipeline_run p0))"
    by (simp add: dispatch_ctx_of_def pipeline_run_def)
  with answers_stamped [OF assms(1,2)] assms(6,7)
  show "answers_keep L (stamped L may (p_registry p0)) (dispatch_ctx_of (pipeline_run p0))" by simp
qed

end
