(* ===== verification/Thread_Queues.thy ===== *)
theory Thread_Queues
  imports Pipeline_Laws
begin

text \<open>
  What the worker fan-out promises, abstractly: one queue of waiting messages per thread, and the
  order in which messages were started.  Workers, their channels, idle timeouts and reaping do not
  appear.  Every step of the running pipeline is one of the three operations below, or none.
\<close>

section \<open>The specification\<close>

record 'm thread_queues =
  tq_waiting :: "string \<Rightarrow> 'm list"
  tq_started :: "(string \<times> 'm) list"

definition tq_empty :: "'m thread_queues" where
  "tq_empty = \<lparr>tq_waiting = (\<lambda>k. []), tq_started = []\<rparr>"

definition tq_enqueue :: "string \<Rightarrow> 'm \<Rightarrow> 'm thread_queues \<Rightarrow> 'm thread_queues" where
  "tq_enqueue k m q = q\<lparr>tq_waiting := (tq_waiting q)(k := tq_waiting q k @ [m])\<rparr>"

definition tq_start :: "string \<Rightarrow> 'm thread_queues \<Rightarrow> ('m \<times> 'm thread_queues) option" where
  "tq_start k q =
     (case tq_waiting q k of
        [] \<Rightarrow> None
      | m # ms \<Rightarrow> Some (m, q\<lparr>tq_waiting := (tq_waiting q)(k := ms), tq_started := tq_started q @ [(k, m)]\<rparr>))"

definition tq_crash :: "string \<Rightarrow> 'm thread_queues \<Rightarrow> 'm thread_queues" where
  "tq_crash k q = q\<lparr>tq_waiting := (tq_waiting q)(k := [])\<rparr>"

section \<open>The workers implement it\<close>

definition queues_of :: "('m, 'a) fan_out \<Rightarrow> 'm thread_queues" where
  "queues_of f = \<lparr>tq_waiting = queue_of f, tq_started = fo_started f\<rparr>"

lemma queues_of_new: "queues_of fan_new = tq_empty"
  by (simp add: queues_of_def tq_empty_def queue_of_def fan_new_def fun_eq_iff)

lemma queues_of_handoff: "fan_inv f \<Longrightarrow> queues_of (handoff key m f) = tq_enqueue key m (queues_of f)"
  by (auto simp: queues_of_def tq_enqueue_def queue_of_handoff fun_eq_iff)

lemma queues_of_update:
  assumes "fan_inv f" "tasks f i = Some w" "wk_key w' = wk_key w"
  shows "queues_of (f\<lparr>tasks := (tasks f)(i \<mapsto> w')\<rparr>) =
    (queues_of f)\<lparr>tq_waiting := (queue_of f)(wk_key w := wk_queue w')\<rparr>"
  by (auto simp: queues_of_def queue_of_update [OF assms])

lemma queues_of_state:
  assumes "fan_inv f" "tasks f i = Some w"
  shows "queues_of (f\<lparr>tasks := (tasks f)(i \<mapsto> w\<lparr>wk_state := st\<rparr>)\<rparr>) = queues_of f"
  using queue_of_task [OF assms] by (simp add: queues_of_update [OF assms]) (simp add: queues_of_def fun_upd_idem)

lemma queue_of_tasks: "queue_of (f\<lparr>tasks := t, fo_started := y\<rparr>) = queue_of (f\<lparr>tasks := t\<rparr>)"
  "queue_of (f\<lparr>tasks := t, fo_lost := z\<rparr>) = queue_of (f\<lparr>tasks := t\<rparr>)"
  by (auto simp: queue_of_def fun_eq_iff split: option.split)

lemma queues_of_take:
  assumes "fan_inv f" "take_message i f = Some (m, f')"
  shows "\<exists>k. tq_start k (queues_of f) = Some (m, queues_of f')"
proof -
  from assms(2) obtain w q where w: "tasks f i = Some w" "wk_queue w = m # q"
    and f': "f' = f\<lparr>tasks := (tasks f)(i \<mapsto> w\<lparr>wk_queue := q, wk_state := Busy []\<rparr>),
      fo_started := fo_started f @ [(wk_key w, m)]\<rparr>"
    by (auto simp: take_message_Some)
  have "queue_of f (wk_key w) = m # q"
    using queue_of_task [OF assms(1) w(1)] w(2) by simp
  moreover have "queues_of f' = (queues_of f)\<lparr>tq_waiting := (queue_of f)(wk_key w := q),
      tq_started := fo_started f @ [(wk_key w, m)]\<rparr>"
    using queues_of_update [OF assms(1) w(1), of "w\<lparr>wk_queue := q, wk_state := Busy []\<rparr>"]
    by (simp add: queues_of_def f' queue_of_tasks)
  ultimately have "tq_start (wk_key w) (queues_of f) = Some (m, queues_of f')"
    by (simp add: tq_start_def queues_of_def)
  then show ?thesis ..
qed

lemma queues_of_set_actions: "fan_inv f \<Longrightarrow> queues_of (set_actions i as f) = queues_of f"
  by (auto simp: set_actions_def queues_of_state split: option.split)

lemma queues_of_next: "fan_inv f \<Longrightarrow> next_action i f = Some (a, f') \<Longrightarrow> queues_of f' = queues_of f"
  by (auto simp: next_action_Some queues_of_state)

lemma queues_of_idle: "fan_inv f \<Longrightarrow> idle_timeout i f = Some f' \<Longrightarrow> queues_of f' = queues_of f"
  by (auto simp: idle_timeout_Some queues_of_state)

lemma queues_of_reap: "fan_inv f \<Longrightarrow> reap i f = Some f' \<Longrightarrow> queues_of f' = queues_of f"
  by (auto simp: reap_Some queues_of_def queue_of_removed(2) queue_of_task fun_eq_iff)

lemma queues_of_dies:
  "fan_inv f \<Longrightarrow> tasks f i = Some w \<Longrightarrow> queues_of (worker_dies i f) = tq_crash (wk_key w) (queues_of f)"
  by (simp add: worker_dies_def queues_of_def tq_crash_def queue_of_tasks)
    (simp add: queue_of_removed(1) fun_eq_iff)

section \<open>Steps of the pipeline\<close>

text \<open>
  The step hands over the message at the head of the dispatch stage's channel, starts the next
  message of a thread, drops the queue of a thread whose handler panicked, or does none of these.
\<close>

definition tq_moves :: "'s pipeline \<Rightarrow> 's pipeline \<Rightarrow> bool" where
  "tq_moves p p' \<longleftrightarrow>
     (let q = queues_of (p_fan p); q' = queues_of (p_fan p') in
      q' = q \<or>
      (\<exists>rm r. p_routed p = rm # r \<and> p_routed p' = r \<and> q' = tq_enqueue (thread_of rm) rm q) \<or>
      (\<exists>k rm. tq_start k q = Some (rm, q')) \<or>
      (\<exists>i w rm f s'. tasks (p_fan p) i = Some w \<and> next_action i (p_fan p) = Some (Some (ARun rm), f) \<and>
         handle_message (dispatch_ctx_of p) rm (p_host p) = (Some Panic, s') \<and> q' = tq_crash (wk_key w) q))"

lemma tq_moves_same: "queues_of (p_fan p') = queues_of (p_fan p) \<Longrightarrow> tq_moves p p'"
  by (simp add: tq_moves_def)

lemma tq_moves_run:
  assumes "fan_inv (p_fan p)" "worker_run i p = Some p'"
  shows "tq_moves p p'"
  using assms(2)
proof (cases rule: worker_run_Some)
  case (1 rm fan1 fan2 s' result)
  from 1(1) obtain w st where w: "tasks (p_fan p) i = Some w"
    and f1: "fan1 = (p_fan p)\<lparr>tasks := (tasks (p_fan p))(i \<mapsto> w\<lparr>wk_state := st\<rparr>)\<rparr>"
    by (auto simp: next_action_Some)
  have inv1: "fan_inv fan1" "queues_of fan1 = queues_of (p_fan p)"
    using fan_inv_step [OF fan_step.intros(4) [OF 1(1)]] queues_of_next [OF assms(1) 1(1)] assms(1) by simp_all
  from 1(4) show ?thesis
  proof (elim disjE conjE)
    assume "fan2 = set_actions i (after_handler (dispatch_ctx_of p) rm result) fan1"
    with 1(2) inv1 show ?thesis
      by (simp add: tq_moves_same queues_of_set_actions)
  next
    assume r: "result = Some Panic" and "fan2 = worker_dies i fan1"
    then have "queues_of (p_fan p') = tq_crash (wk_key w) (queues_of (p_fan p))"
      using queues_of_dies [OF inv1(1), of i "w\<lparr>wk_state := st\<rparr>"] inv1(2) 1(2) by (simp add: f1)
    moreover have "handle_message (dispatch_ctx_of p) rm (p_host p) = (Some Panic, s')"
      using 1(3) r by simp
    ultimately show ?thesis
      using w 1(1) unfolding tq_moves_def Let_def by blast
  qed
qed

lemma tq_moves_work:
  assumes "pwork L cap p p'" "fan_inv (p_fan p)"
  shows "tq_moves p p'"
  using assms(1)
proof cases
  case dispatch_recv
  with queues_of_handoff [OF assms(2)] show ?thesis
    by (auto simp: dispatch_recv_Some tq_moves_def Let_def)
next
  case (worker_take i)
  then obtain rm fan1 where t: "take_message i (p_fan p) = Some (rm, fan1)"
    and p': "p' = p\<lparr>p_fan := set_actions i [ARun rm] fan1\<rparr>"
    by (auto simp: worker_take_Some)
  have "fan_inv fan1"
    using fan_inv_step [OF fan_step.intros(2) [OF t] assms(2)] .
  with queues_of_take [OF assms(2) t] p' show ?thesis
    by (auto simp: tq_moves_def queues_of_set_actions Let_def)
next
  case (worker_run i)
  with assms(2) show ?thesis by (rule tq_moves_run)
next
  case (worker_respond fresh i)
  from worker_respond(2) show ?thesis
  proof (cases rule: worker_respond_Some)
    case (1 rm r fan1 threads' acts)
    have "fan_inv fan1"
      using fan_inv_step [OF fan_step.intros(4) [OF 1(1)] assms(2)] .
    with 1(3) queues_of_next [OF assms(2) 1(1)] show ?thesis
      by (simp add: tq_moves_same queues_of_set_actions)
  qed
next
  case (worker_act i)
  then show ?thesis
    by (cases rule: worker_act_Some) (simp add: tq_moves_same queues_of_next [OF assms(2)])
next
  case (worker_timeout i)
  with queues_of_idle [OF assms(2)] show ?thesis
    by (auto simp: worker_timeout_Some intro: tq_moves_same)
next
  case (worker_reap i)
  with queues_of_reap [OF assms(2)] show ?thesis
    by (auto simp: worker_reap_Some intro: tq_moves_same)
qed (rule tq_moves_same; auto simp: stage_defs Let_def split: outcome_splits)+

lemma tq_moves_step:
  assumes "pstep L cap may p p'" "fan_inv (p_fan p)"
  shows "tq_moves p p'"
  using assms(1)
proof (cases rule: pstep_cases)
  case work
  then show ?thesis using assms(2) by (rule tq_moves_work)
next
  case (outside xs es c b)
  then show ?thesis by (simp add: tq_moves_same)
qed

end
