(* ===== verification/Config_Load.thy ===== *)
theory Config_Load
  imports Pipeline_Error
begin

text \<open>
  \<open>src/config.rs\<close>: the organism configuration.  The file system and the YAML parser are
  arguments: \<open>read_file\<close> gives the contents or the error text, \<open>yaml\<close> the fields a document
  holds (each present or absent).  What the derived \<open>Deserialize\<close> makes of them (required
  fields, defaults) is written out from the attributes.
\<close>

record organism_config =
  oc_name :: string
  oc_port :: u16

record listener_config =
  lc_name :: string
  lc_payload_class :: string
  lc_handler :: string
  lc_description :: string
  lc_agent :: bool
  lc_peers :: "string list"
  lc_broadcast :: bool
  lc_prompt :: string

record pipeline_config =
  pc_organism :: organism_config
  max_concurrent_pipelines :: nat
  max_concurrent_handlers :: nat
  max_concurrent_per_agent :: nat
  thread_scheduling :: string
  pc_listeners :: "listener_config list"

section \<open>Defaults\<close>

definition default_max_concurrent_pipelines :: nat where "default_max_concurrent_pipelines = 50"
definition default_max_concurrent_handlers :: nat where "default_max_concurrent_handlers = 20"
definition default_max_concurrent_per_agent :: nat where "default_max_concurrent_per_agent = 5"
definition default_thread_scheduling :: string where "default_thread_scheduling = ''breadth-first''"
definition default_organism_name :: string where "default_organism_name = ''unnamed''"
definition default_port :: u16 where "default_port = 8765"

text \<open>\<open>#[derive(Default)]\<close> takes the default of each field's type, not of its attribute.\<close>

definition organism_default :: organism_config where
  "organism_default = \<lparr>oc_name = [], oc_port = 0\<rparr>"

section \<open>Documents\<close>

record raw_organism =
  ro_name :: "string option"
  ro_port :: "u16 option"

record raw_listener =
  rl_name :: "string option"
  rl_payload_class :: "string option"
  rl_handler :: "string option"
  rl_description :: "string option"
  rl_agent :: "bool option"
  rl_peers :: "string list option"
  rl_broadcast :: "bool option"
  rl_prompt :: "string option"

record raw_config =
  rc_organism :: "raw_organism option"
  rc_max_pipelines :: "nat option"
  rc_max_handlers :: "nat option"
  rc_max_per_agent :: "nat option"
  rc_scheduling :: "string option"
  rc_listeners :: "raw_listener list option"

definition or_default :: "'a option \<Rightarrow> 'a \<Rightarrow> 'a" where
  "or_default v d = (case v of Some x \<Rightarrow> x | None \<Rightarrow> d)"

definition required_field :: "string \<Rightarrow> 'a option \<Rightarrow> ('a, message) result" where
  "required_field name v = ok_or (Msg ''missing field'' [name]) v"

definition de_organism :: "raw_organism \<Rightarrow> organism_config" where
  "de_organism o1 = \<lparr>oc_name = or_default (ro_name o1) default_organism_name,
     oc_port = or_default (ro_port o1) default_port\<rparr>"

definition de_listener :: "raw_listener \<Rightarrow> (listener_config, message) result" where
  "de_listener l =
     bindR (required_field ''name'' (rl_name l)) (\<lambda>n.
     bindR (required_field ''payload_class'' (rl_payload_class l)) (\<lambda>pc.
     bindR (required_field ''handler'' (rl_handler l)) (\<lambda>h.
     bindR (required_field ''description'' (rl_description l)) (\<lambda>d.
     Ok \<lparr>lc_name = n, lc_payload_class = pc, lc_handler = h, lc_description = d,
         lc_agent = or_default (rl_agent l) False, lc_peers = or_default (rl_peers l) [],
         lc_broadcast = or_default (rl_broadcast l) False, lc_prompt = or_default (rl_prompt l) []\<rparr>))))"

fun de_listeners :: "raw_listener list \<Rightarrow> (listener_config list, message) result" where
  "de_listeners [] = Ok []"
| "de_listeners (l # ls) = bindR (de_listener l) (\<lambda>c. bindR (de_listeners ls) (\<lambda>cs. Ok (c # cs)))"

definition de_config :: "raw_config \<Rightarrow> (pipeline_config, message) result" where
  "de_config d =
     bindR (de_listeners (or_default (rc_listeners d) [])) (\<lambda>ls.
     Ok \<lparr>pc_organism = (case rc_organism d of Some o1 \<Rightarrow> de_organism o1 | None \<Rightarrow> organism_default),
         max_concurrent_pipelines = or_default (rc_max_pipelines d) default_max_concurrent_pipelines,
         max_concurrent_handlers = or_default (rc_max_handlers d) default_max_concurrent_handlers,
         max_concurrent_per_agent = or_default (rc_max_per_agent d) default_max_concurrent_per_agent,
         thread_scheduling = or_default (rc_scheduling d) default_thread_scheduling,
         pc_listeners = ls\<rparr>)"

section \<open>Loading\<close>

type_synonym yaml_parser = "string \<Rightarrow> (raw_config, message) result"

definition parse_config :: "yaml_parser \<Rightarrow> string \<Rightarrow> (pipeline_config, pipeline_error) result" where
  "parse_config yaml s =
     map_err (\<lambda>m. Config (nest_message ''YAML parse error: '' m)) (bindR (yaml s) de_config)"

definition load_config ::
    "(string \<Rightarrow> (string, message) result) \<Rightarrow> yaml_parser \<Rightarrow> string \<Rightarrow> (pipeline_config, pipeline_error) result" where
  "load_config read_file yaml path =
     bindR (map_err (\<lambda>m. Config (nest_message ''failed to read {}: '' m)) (read_file path)) (parse_config yaml)"

definition payload_tag :: "listener_config \<Rightarrow> string" where
  "payload_tag c = last (split_on CHR ''.'' (lc_payload_class c))"

definition handler_name :: "listener_config \<Rightarrow> string" where
  "handler_name c = last (split_on CHR ''.'' (lc_handler c))"

section \<open>Laws\<close>

lemma last_part:
  "s = p \<or> (\<exists>pre. s = pre @ ''.'' @ p) \<Longrightarrow> CHR ''.'' \<notin> set p \<Longrightarrow> last (split_on CHR ''.'' s) = p"
  by (auto simp: split_on_snoc split_on_no_sep)

lemma de_listeners_Ok:
  "de_listeners ls = Ok cs \<longleftrightarrow> list_all2 (\<lambda>l c. de_listener l = Ok c) ls cs"
  by (induction ls arbitrary: cs) (auto simp: result_iffs list_all2_Cons1)

lemma de_listener_complete:
  "(\<exists>c. de_listener l = Ok c) \<longleftrightarrow>
   rl_name l \<noteq> None \<and> rl_payload_class l \<noteq> None \<and> rl_handler l \<noteq> None \<and> rl_description l \<noteq> None"
  by (auto simp: de_listener_def required_field_def result_iffs)

lemma parse_config_Ok:
  "parse_config yaml s = Ok c \<longleftrightarrow> (\<exists>d. yaml s = Ok d \<and> de_config d = Ok c)"
  by (simp add: parse_config_def bindR_eq_Ok)

lemma parse_config_Err: "parse_config yaml s = Err e \<Longrightarrow> \<exists>m. e = Config m"
  by (auto simp: parse_config_def map_err_eq_Err)

lemma de_listeners_complete:
  "(\<exists>cs. de_listeners ls = Ok cs) \<longleftrightarrow> (\<forall>l \<in> set ls. \<exists>c. de_listener l = Ok c)"
  by (induction ls) (auto simp: result_iffs)

lemma de_config_complete:
  "(\<exists>c. de_config d = Ok c) \<longleftrightarrow>
   (\<forall>l \<in> set (or_default (rc_listeners d) []).
      rl_name l \<noteq> None \<and> rl_payload_class l \<noteq> None \<and> rl_handler l \<noteq> None \<and> rl_description l \<noteq> None)"
  unfolding de_listener_complete [symmetric] de_listeners_complete [symmetric]
  by (auto simp: de_config_def result_iffs)

text \<open>What a complete document loads as.\<close>

definition listener_loaded :: "raw_listener \<Rightarrow> listener_config" where
  "listener_loaded l = \<lparr>lc_name = the (rl_name l), lc_payload_class = the (rl_payload_class l),
     lc_handler = the (rl_handler l), lc_description = the (rl_description l),
     lc_agent = or_default (rl_agent l) False, lc_peers = or_default (rl_peers l) [],
     lc_broadcast = or_default (rl_broadcast l) False, lc_prompt = or_default (rl_prompt l) []\<rparr>"

lemma de_listener_loaded: "de_listener l = Ok c \<Longrightarrow> c = listener_loaded l"
  by (auto simp: de_listener_def required_field_def listener_loaded_def result_iffs)

lemma de_listeners_loaded: "de_listeners ls = Ok cs \<Longrightarrow> cs = map listener_loaded ls"
  by (induction ls arbitrary: cs) (auto simp: result_iffs dest: de_listener_loaded)

lemma de_config_loaded:
  assumes "de_config d = Ok c"
  shows "c = \<lparr>pc_organism = (case rc_organism d of None \<Rightarrow> \<lparr>oc_name = [], oc_port = 0\<rparr>
       | Some og \<Rightarrow> \<lparr>oc_name = or_default (ro_name og) ''unnamed'', oc_port = or_default (ro_port og) 8765\<rparr>),
     max_concurrent_pipelines = or_default (rc_max_pipelines d) 50,
     max_concurrent_handlers = or_default (rc_max_handlers d) 20,
     max_concurrent_per_agent = or_default (rc_max_per_agent d) 5,
     thread_scheduling = or_default (rc_scheduling d) ''breadth-first'',
     pc_listeners = map listener_loaded (or_default (rc_listeners d) [])\<rparr>"
  using assms
  by (auto simp: de_config_def result_iffs de_organism_def organism_default_def default_organism_name_def default_port_def
      default_max_concurrent_pipelines_def default_max_concurrent_handlers_def default_max_concurrent_per_agent_def
      default_thread_scheduling_def split: option.split dest: de_listeners_loaded)

end
