(* ===== verification/Wire_Claims.thy ===== *)
theory Wire_Claims
  imports Sample_Xml Validation Routing Thread_Registry Config_Load
begin

text \<open>
  The properties of the wire types and of the tables: addresses, provenance, the codec, schemas,
  routing, threads and configuration.  Each theorem rests on the lemmas of its component.
\<close>

section \<open>Codec\<close>

text \<open>
  C7. Round trip: an envelope whose addresses, tag and field names are plain and whose texts
  need no escaping (or have no white space at their ends) encodes to bytes that decode to the
  same envelope, up to the white space at the ends of its texts.
\<close>

theorem codec_round_trip:
  assumes "xml_laws L" and "escape_laws L" and "wf_envelope L env"
  shows "bindR (encode_envelope L env) (decode_envelope L) = Ok (norm_envelope env)"
  by (rule decode_encode_env [OF assms])

definition sample_env :: envelope where
  "sample_env = \<lparr>e_meta = \<lparr>m_from = flat ''alice'', m_to = Some (flat ''bob''), m_thread = ''t1'',
      m_provenance = from_bit 3\<rparr>,
     e_payload = payload_new ''Greeting'' (Rec [Field ''text'' (Text ''hi''), Field ''n'' (Uint 7),
       Field ''items'' (Seq [Boolean True, NilV, Blob [0, 255], Sint (- 1), Real 5])])\<rparr>"

lemma sample_wf: "wf_envelope sample_lib sample_env"
proof -
  have plain: "plain_name ''alice''" "plain_name ''bob''"
    by (simp_all add: plain_name_def)
  have disp: "address_display (flat n) = n" for n
    by (simp add: address_display_def seg_display_def)
  have "meta_text s" if "printable s" "s \<noteq> []" for s
    using that by (simp add: meta_text_def trim_printable xml_trim_printable)
  then show ?thesis
    by (simp add: wf_envelope_def wf_meta_def sample_env_def wf_flat plain disp payload_new_def attr_ok_def
        no_markup_def printable_utf8 text_ok_def sample_f64_laws code_def)
qed

theorem codec_round_trip_witness:
  "wf_envelope sample_lib sample_env \<and>
   bindR (encode_envelope sample_lib sample_env) (decode_envelope sample_lib) = Ok (norm_envelope sample_env)"
  using codec_round_trip [OF sample_xml_laws sample_escape_laws sample_wf] sample_wf by simp

text \<open>
  C23. Decoding is not panic-free: a document with a blob text makes the decoder panic exactly when
  the trimmed text has an even number of bytes and, after pairs that are read as bytes, a pair whose
  end lies inside a multi-byte character; the decoder slices there instead of refusing the text.
\<close>

theorem blob_text_panics:
  assumes "xml_laws L" "escape_laws L" "text_ok t" "s = trim (xml_trim t)"
  shows "decode_envelope L (bytes_of L (XStart ''message'' [] # XStart ''payload'' [] #
      scalar_events L ''blob'' t @ [XEnd ''payload'', XEnd ''message''])) = Panic \<longleftrightarrow>
    even (length s) \<and> (\<exists>k < length s div 2.
      (\<forall>j < k. from_str_radix 16 256 (take 2 (drop (2 * j) s)) \<noteq> None) \<and> \<not> is_char_boundary s (2 * k + 2))"
  using decode_blob_panics [OF assms(1-3)] from_hex_Panic [of "xml_trim t"] assms(4) by (simp add: Let_def)

definition split_char :: string where
  "split_char = [CHR ''a'', CHR 0xC3, CHR 0xA9, CHR ''b'']"

lemma split_char_facts:
  "utf8_valid split_char" "trim split_char = split_char" "xml_trim split_char = split_char"
  by code_simp+

lemma split_char_panics: "from_hex split_char = Panic"
  by (simp add: from_hex_def split_char_facts) (simp add: split_char_def str_slice_def is_char_boundary_def
      utf8_cont_def code_def)

lemma split_char_inside: "\<not> is_char_boundary split_char (2 * 0 + 2)" "even (length split_char)" "0 < length split_char div 2"
  by (simp_all add: split_char_def is_char_boundary_def utf8_cont_def code_def)

theorem blob_text_panics_witness:
  "decode_envelope sample_lib (bytes_of sample_lib (XStart ''message'' [] # XStart ''payload'' [] #
      scalar_events sample_lib ''blob'' split_char @ [XEnd ''payload'', XEnd ''message''])) = Panic"
proof -
  have "text_ok split_char"
    by (simp add: text_ok_def split_char_facts)
  moreover have "split_char = trim (xml_trim split_char)"
    by (simp add: split_char_facts)
  moreover have "even (length split_char) \<and> (\<exists>k < length split_char div 2.
      (\<forall>j < k. from_str_radix 16 256 (take 2 (drop (2 * j) split_char)) \<noteq> None) \<and> \<not> is_char_boundary split_char (2 * k + 2))"
    using split_char_inside by blast
  ultimately show ?thesis
    using blob_text_panics [OF sample_xml_laws sample_escape_laws] by blast
qed

text \<open>
  Labels and blobs: the hexadecimal text of a provenance value or of a byte string decodes to
  it, and the text of a 64-bit integer parses back, over the whole range of each type.
\<close>

theorem number_texts_round_trip:
  "prov_from_hex (prov_to_hex p) = Ok p \<and> from_hex (to_hex bs) = Ok bs \<and>
   parse_u64 (show_u64 u) = Some u \<and> parse_i64 (show_i64 i) = Some i"
  by (simp add: prov_from_to_hex from_to_hex)

section \<open>Addresses\<close>

text \<open>
  C13. The textual form of an address is canonical: what parses prints back to the same text, a
  well-formed address parses back to itself, parsing yields well-formed addresses, and it never
  panics.
\<close>

theorem address_text_canonical:
  "(\<forall>a. parse_address s = Ok a \<longrightarrow> address_display a = s \<and> wf_address a) \<and>
   (wf_address b \<longrightarrow> parse_address (address_display b) = Ok b) \<and> parse_address s \<noteq> Panic"
  using address_display_parse parse_address_wf parse_address_display parse_not_panic by blast

theorem address_text_canonical_witness:
  "wf_address (flat ''bob'') \<and> parse_address (address_display (flat ''bob'')) = Ok (flat ''bob'')"
proof -
  have "wf_address (flat ''bob'')"
    by (simp add: wf_flat plain_name_def)
  with address_text_canonical [of "''bob''" "flat ''bob''"] show ?thesis by blast
qed

text \<open>
  The instance address (the address without its buffer) keeps organism, key, namespace and
  node, and has no buffer; so any number of buffers share the one instance.
\<close>

theorem instance_address_keeps:
  assumes "instance_address a = Ok b"
  shows "organism b = organism a \<and> instance_key b = instance_key a \<and> namespace b = namespace a \<and>
    node b = node a \<and> buffer b = None"
  using instance_address_accessors [OF assms] by blast

theorem instance_address_keeps_witness:
  "\<exists>b. instance_address \<lparr>segments = [\<lparr>seg_name = ''bob'', seg_key = Some ''alice''\<rparr>, \<lparr>seg_name = ''dm'', seg_key = None\<rparr>]\<rparr> = Ok b \<and>
     organism b = Some ''bob'' \<and> buffer b = None"
proof -
  let ?a = "\<lparr>segments = [\<lparr>seg_name = ''bob'', seg_key = Some ''alice''\<rparr>, \<lparr>seg_name = ''dm'', seg_key = None\<rparr>]\<rparr>"
  have ok: "instance_address ?a = Ok \<lparr>segments = [\<lparr>seg_name = ''bob'', seg_key = Some ''alice''\<rparr>]\<rparr>"
    by (simp add: instance_address_def organism_index_def)
  have org: "organism ?a = Some ''bob''"
    by (simp add: organism_def organism_index_def get_at_def)
  show ?thesis
    by (intro exI conjI, rule ok) (simp_all only: instance_address_keeps [OF ok] org)
qed

section \<open>Provenance\<close>

text \<open>
  C14. Refinement: a provenance value stands for a set of labels below 128; the word operations
  implement the empty set, insertion, union, membership, disjointness and equality.
\<close>

theorem provenance_is_label_set:
  "prov_set EMPTY = {} \<and> prov_set (prov_union p q) = prov_set p \<union> prov_set q \<and>
   prov_set (union_with p q) = prov_set p \<union> prov_set q \<and>
   prov_set (with_bit p b) = prov_set p \<union> (if unat b < 128 then {b} else {}) \<and>
   prov_set (from_bit b) = (if unat b < 128 then {b} else {}) \<and>
   (contains_bit p b \<longleftrightarrow> b \<in> prov_set p) \<and> (intersects p q \<longleftrightarrow> prov_set p \<inter> prov_set q \<noteq> {}) \<and>
   (prov_is_empty p \<longleftrightarrow> prov_set p = {}) \<and> (p = q \<longleftrightarrow> prov_set p = prov_set q)"
proof -
  have "prov_is_empty p \<longleftrightarrow> prov_set p = {}"
    using prov_set_inj [of p EMPTY] by (simp add: prov_is_empty_iff)
  moreover have "intersects p q \<longleftrightarrow> prov_set p \<inter> prov_set q \<noteq> {}"
    by (auto simp: intersects_iff prov_set_def)
  ultimately show ?thesis
    by (simp add: with_bit_def from_bit_def prov_set_inj) (simp add: prov_set_def)
qed

section \<open>Schemas\<close>

text \<open>
  C15. The verdict on a payload: an unregistered tag passes; a registered one passes exactly when
  a strict schema declares every field present and every required field is present; and the
  last schema registered for a tag is the one that counts.
\<close>

theorem schema_verdict:
  assumes "\<And>s'. s' \<in> set later \<Longrightarrow> root_tag s' \<noteq> root_tag s"
  shows "validate_value (foldl schema_register r (before @ s # later)) (root_tag s) v = Ok () \<longleftrightarrow>
      (strict s \<longrightarrow> set (present_fields v) \<subseteq> fst ` set (schema_fields s)) \<and>
      (\<forall>(n, f) \<in> set (schema_fields s). fs_required f \<longrightarrow> n \<in> set (present_fields v))"
  using validate_value_known [OF schemas.get_puts_last [OF assms, of later r before]]
  by (auto simp: conforms_def required_fields_def)

theorem schema_verdict_witness:
  "validate_value (foldl schema_register schemas_new [PayloadSchema ''G'' [(''text'', FieldSchema True FString)] True])
     ''G'' (Rec [Field ''text'' (Text ''hi'')]) = Ok ()"
  using schema_verdict [where later = "[]" and before = "[]" and r = schemas_new
      and s = "PayloadSchema ''G'' [(''text'', FieldSchema True FString)] True"
      and v = "Rec [Field ''text'' (Text ''hi'')]"]
  by simp

text \<open>
  C16. The two validators agree: on a document with the record's fields as the children of the
  root element (whatever is nested below them), the byte validator accepts exactly when the root
  is the schema's and the value validator accepts the record.
\<close>

theorem validators_agree:
  assumes "xml_read L xml = map Inr (document root cs)" and "list_all child_ok cs" and "simple_name root"
    and "map fld_name fs = map fst cs"
  shows "validate_payload L xml s = Ok () \<longleftrightarrow> root = root_tag s \<and> validate_payload_value (Rec fs) s = Ok ()"
proof -
  have "fst ` set cs = set (map fld_name fs)"
    by (simp add: assms(4))
  then show ?thesis
    using validate_document [OF assms(1-3), of s] by (simp add: validate_payload_value_Ok)
qed

theorem validators_agree_witness:
  "\<exists>xml. validate_payload sample_lib xml (PayloadSchema ''g'' [(''t'', FieldSchema True FString)] True) = Ok ()"
proof -
  let ?es = "document ''g'' [(''t'', [XText ''hi''])]"
  have trim: "xml_trim ''hi'' = ''hi''"
    by (simp add: xml_trim_printable code_def)
  have r: "xml_read sample_lib (concat (map put_event ?es)) = map Inr ?es"
    using take_put_events [OF put_events_length, of ?es] trim by (simp add: sample_lib_def document_def)
  have name: "simple_name ''g''" "simple_name ''t''"
    by (simp_all add: simple_name_def printable_utf8 code_def)
  from validators_agree [OF r, where fs = "[Field ''t'' (Text ''hi'')]"
      and s = "PayloadSchema ''g'' [(''t'', FieldSchema True FString)] True"]
  show ?thesis
    using name by (auto simp: child_ok_def validate_payload_value_Ok conforms_def required_fields_def)
qed

text \<open>
  Neither verdict depends on the iteration order of the schema's hash map, nor on the order
  or repetition of a record's fields.
\<close>

theorem schema_order_irrelevant:
  assumes "root_tag s = root_tag s'" "strict s = strict s'" "set (schema_fields s) = set (schema_fields s')"
    and "set (map fld_name fs) = set (map fld_name fs')"
  shows "validate_payload_value (Rec fs) s = Ok () \<longleftrightarrow> validate_payload_value (Rec fs') s' = Ok ()"
  using assms by (simp add: validate_payload_value_Ok conforms_def required_fields_def)

theorem schema_order_irrelevant_witness:
  "let s = PayloadSchema ''g'' [(''a'', FieldSchema True FString), (''b'', FieldSchema False FAny)] True;
       s' = PayloadSchema ''g'' [(''b'', FieldSchema False FAny), (''a'', FieldSchema True FString)] True
   in validate_payload_value (Rec [Field ''b'' NilV, Field ''a'' NilV]) s = Ok () \<longleftrightarrow>
      validate_payload_value (Rec [Field ''a'' NilV, Field ''b'' NilV]) s' = Ok ()"
  unfolding Let_def by (rule schema_order_irrelevant) auto

section \<open>Routing\<close>

text \<open>
  C18. Routing: tags and targets are matched without regard to case, the first listener registered
  under a route keeps it, and the peers that bind an agent are those of its last registration.
\<close>

theorem routing_tables:
  assumes "\<And>l. l \<in> set later \<Longrightarrow> fst l \<noteq> n" and "resolve t (Some m) tag = Ok es"
  shows "resolve t (Some (to_lowercase m)) (to_lowercase tag) = resolve t (Some m) tag \<and>
    (\<exists>es'. resolve (register_listener t l) (Some m) tag = Ok es' \<and> hd es' = hd es) \<and>
    (enforce_peers (foldl register_listener t (before @ (n, tag', True, ps, d) # later)) n to = Ok () \<longleftrightarrow> to \<in> set ps)"
proof -
  obtain n' tg a qs d' where l: "l = (n', tg, a, qs, d')"
    by (cases l) auto
  have "\<exists>es'. resolve (register_listener t l) (Some m) tag = Ok es' \<and> hd es' = hd es"
    unfolding l register_listener_def prod.case by (rule resolve_register_keeps_first [OF assms(2)])
  then show ?thesis
    using enforce_peers_after [OF assms(1)] resolve_case [of "to_lowercase m" m "to_lowercase tag" tag] by simp
qed

theorem routing_tables_witness:
  "let t = register_listener routing_new (''bob'', ''Greeting'', True, [''alice''], [])
   in enforce_peers (foldl register_listener t ([] @ (''bob'', ''Greeting'', True, [''carol''], []) # [])) ''bob'' ''carol'' = Ok ()"
proof -
  let ?t = "register_listener routing_new (''bob'', ''Greeting'', True, [''alice''], [])"
  have "resolve routing_new (Some ''bob'') ''Greeting'' =
      Err (NoRoute (to_lowercase ''bob'' @ ''.'' @ to_lowercase ''Greeting''))"
    by (simp add: resolve_def routing_new_def)
  from resolve_register_new [OF this, of True "[''alice'']" "[]"]
  have r: "resolve ?t (Some ''bob'') ''Greeting'' = Ok [listener_of (''bob'', ''Greeting'', True, [''alice''], [])]"
    by (simp add: register_listener_def)
  show ?thesis
    unfolding Let_def
    using routing_tables [OF _ r, where later = "[]" and n = "''bob''" and ps = "[''carol'']"
        and to = "''carol''" and before = "[]" and tag' = "''Greeting''" and d = "[]"]
    by simp
qed

text \<open>
  C26. A schema can be passed by: schemas are looked up by the exact tag, routes by the lower-case
  tag, so a tag spelled in another case skips the schema and still reaches the same listeners.
\<close>

theorem schema_case_bypass:
  assumes "schema_get r tag' = None" "to_lowercase tag' = to_lowercase tag"
  shows "validate_value r tag' v = Ok () \<and> resolve t (Some n) tag' = resolve t (Some n) tag"
  using validate_value_unknown [OF assms(1)] resolve_case [OF _ assms(2)] by blast

theorem schema_case_bypass_witness:
  "let r = schema_register schemas_new (PayloadSchema ''Greeting'' [(''text'', FieldSchema True FString)] True)
   in validate_value r ''Greeting'' (Rec []) \<noteq> Ok () \<and> validate_value r ''GREETING'' (Rec []) = Ok ()"
proof -
  let ?s = "PayloadSchema ''Greeting'' [(''text'', FieldSchema True FString)] True"
  let ?r = "schema_register schemas_new ?s"
  have g: "schema_get ?r ''GREETING'' = None" "schema_get ?r ''Greeting'' = Some ?s"
    by (simp_all add: schemas.get_put) (simp add: schema_get_def schemas_new_def)
  have "to_lowercase ''GREETING'' = to_lowercase ''Greeting''"
    by code_simp
  from schema_case_bypass [OF g(1) this] validate_value_known [OF g(2)] show ?thesis
    by (simp add: conforms_def required_fields_def)
qed

section \<open>Threads\<close>

text \<open>
  C19. Every reply shortens the chain it travels on by its last hop and goes to the hop before it;
  a chain of one hop is exhausted and forgotten.  So a cascade of replies ends after at most as
  many steps as the chain has hops.
\<close>

theorem replies_shorten_chain:
  assumes "threads_inv r" "uuid_to_chain r fresh = None" "uuid_to_chain r tid = Some c"
  shows "case prune_for_response r fresh tid of
      (None, r') \<Rightarrow> length (split_on CHR ''.'' c) = 1 \<and> uuid_to_chain r' tid = None
    | (Some p, r') \<Rightarrow> \<exists>d. uuid_to_chain r' (pr_thread_id p) = Some d \<and>
        split_on CHR ''.'' d = butlast (split_on CHR ''.'' c) \<and>
        length (split_on CHR ''.'' d) < length (split_on CHR ''.'' c) \<and>
        pr_target p = last (split_on CHR ''.'' d)"
proof (cases c rule: chain_cases)
  case single
  with assms(3) show ?thesis
    by (simp add: prune_exhausted split_on_no_sep cleanup_def)
next
  case (hop d h)
  then obtain p r' where p: "prune_for_response r fresh tid = (Some p, r')"
    using assms(3) by (cases "get_or_create r fresh d") (simp add: prune_alt)
  from prune_shortens [OF assms p] p show ?thesis by auto
qed

theorem replies_shorten_chain_witness:
  "let r = bind_thread thread_new ''alice.bob'' ''t1'' in
   threads_inv r \<and> (\<exists>p r'. prune_for_response r ''t2'' ''t1'' = (Some p, r') \<and> pr_target p = ''alice'')"
proof -
  let ?r = "bind_thread thread_new ''alice.bob'' ''t1''"
  have inv: "threads_inv ?r"
    by (rule threads_inv_bind [OF threads_inv_new]) (simp_all add: thread_new_def)
  have f: "uuid_to_chain ?r ''t2'' = None" and t: "uuid_to_chain ?r ''t1'' = Some ''alice.bob''"
    by (simp_all add: thread_new_def)
  from replies_shorten_chain [OF inv f t] show ?thesis
    using inv by (auto split: prod.splits option.splits)
qed

section \<open>Configuration\<close>

text \<open>
  C27. Configuration: a document loads exactly when every listener has its four required fields, and
  every failure is a \<open>Config\<close> error.  Every setting that is present is kept and every one that is
  absent takes its default: 50 pipelines, 20 handlers, 5 per agent, breadth-first scheduling, no
  listeners; in an \<open>organism\<close> section the name \<open>unnamed\<close> and port 8765; in a listener no agent, no
  peers, no broadcast and no prompt.  But an absent \<open>organism\<close> section gives the empty name and
  port 0, not the defaults of its fields.
\<close>

theorem config_loading:
  assumes "yaml s = Ok d"
  shows "((\<exists>c. parse_config yaml s = Ok c) \<longleftrightarrow>
      (\<forall>l \<in> set (or_default (rc_listeners d) []).
         rl_name l \<noteq> None \<and> rl_payload_class l \<noteq> None \<and> rl_handler l \<noteq> None \<and> rl_description l \<noteq> None)) \<and>
    (\<forall>c. parse_config yaml s = Ok c \<longrightarrow>
      c = \<lparr>pc_organism = (case rc_organism d of None \<Rightarrow> \<lparr>oc_name = [], oc_port = 0\<rparr>
             | Some og \<Rightarrow> \<lparr>oc_name = or_default (ro_name og) ''unnamed'', oc_port = or_default (ro_port og) 8765\<rparr>),
           max_concurrent_pipelines = or_default (rc_max_pipelines d) 50,
           max_concurrent_handlers = or_default (rc_max_handlers d) 20,
           max_concurrent_per_agent = or_default (rc_max_per_agent d) 5,
           thread_scheduling = or_default (rc_scheduling d) ''breadth-first'',
           pc_listeners = map (\<lambda>l. \<lparr>lc_name = the (rl_name l), lc_payload_class = the (rl_payload_class l),
              lc_handler = the (rl_handler l), lc_description = the (rl_description l),
              lc_agent = or_default (rl_agent l) False, lc_peers = or_default (rl_peers l) [],
              lc_broadcast = or_default (rl_broadcast l) False, lc_prompt = or_default (rl_prompt l) []\<rparr>)
             (or_default (rc_listeners d) [])\<rparr>) \<and>
    (\<forall>e. parse_config yaml s = Err e \<longrightarrow> (\<exists>m. e = Config m))"
  using assms by (auto simp: parse_config_Ok de_config_complete simp flip: listener_loaded_def
      dest: de_config_loaded parse_config_Err)

theorem config_loading_witness:
  "let l = \<lparr>rl_name = Some ''echo'', rl_payload_class = Some ''handlers.Greeting'', rl_handler = Some ''handlers.echo'',
         rl_description = Some [], rl_agent = None, rl_peers = None, rl_broadcast = None, rl_prompt = None\<rparr>;
       d = \<lparr>rc_organism = None, rc_max_pipelines = None, rc_max_handlers = Some 3, rc_max_per_agent = None,
         rc_scheduling = None, rc_listeners = Some [l]\<rparr>
   in \<exists>c. parse_config (\<lambda>_. Ok d) [] = Ok c \<and> oc_name (pc_organism c) = [] \<and> oc_port (pc_organism c) = 0 \<and>
     max_concurrent_handlers c = 3 \<and> max_concurrent_per_agent c = 5 \<and> map lc_agent (pc_listeners c) = [False]"
proof -
  let ?l = "\<lparr>rl_name = Some ''echo'', rl_payload_class = Some ''handlers.Greeting'', rl_handler = Some ''handlers.echo'',
    rl_description = Some [], rl_agent = None, rl_peers = None, rl_broadcast = None, rl_prompt = None\<rparr>"
  let ?d = "\<lparr>rc_organism = None, rc_max_pipelines = None, rc_max_handlers = Some 3, rc_max_per_agent = None,
    rc_scheduling = None, rc_listeners = Some [?l]\<rparr>"
  from config_loading [of "\<lambda>_. Ok ?d" "[]" ?d] obtain c where "parse_config (\<lambda>_. Ok ?d) [] = Ok c"
    by (auto simp: or_default_def)
  with config_loading [of "\<lambda>_. Ok ?d" "[]" ?d] show ?thesis
    by (auto simp: or_default_def)
qed

end
