(* ===== verification/Switchboard.thy ===== *)
theory Switchboard
  imports Federation
begin

text \<open>
  \<open>src/switchboard.rs\<close>: the materialize-then-inject front of a pipeline.  The materializer is
  the host's hook, acting on the host's state \<open>'m\<close>; the ingress is the sending half of the
  pipeline's channel: the bytes sent so far, and whether the receiver is still there.
\<close>

record 'm materializer =
  mat_resolve :: "'m \<Rightarrow> address \<Rightarrow> (string, string) result \<times> 'm"
  mat_evict :: "'m \<Rightarrow> string \<Rightarrow> (unit, string) result \<times> 'm"

definition no_evict :: "'m \<Rightarrow> string \<Rightarrow> (unit, string) result \<times> 'm" where
  "no_evict s thread_id = (Ok (), s)"

datatype switchboard_error =
    NoDestination
  | Materialize string
  | IngressClosed
  | Encode pipeline_error

fun switchboard_error_display :: "switchboard_error \<Rightarrow> message" where
  "switchboard_error_display NoDestination = Msg ''envelope has no destination address'' []"
| "switchboard_error_display (Materialize e) = Msg ''materialization failed: {0}'' [e]"
| "switchboard_error_display IngressClosed = Msg ''pipeline ingress closed'' []"
| "switchboard_error_display (Encode e) = pipeline_error_display e"

record ingress =
  ig_open :: bool
  ig_sent :: "u8 list list"

definition ingress_send :: "u8 list \<Rightarrow> ingress \<Rightarrow> bool \<times> ingress" where
  "ingress_send bs g = (if ig_open g then (True, g\<lparr>ig_sent := ig_sent g @ [bs]\<rparr>) else (False, g))"

type_synonym 'm switchboard_state = "'m \<times> ingress"

definition sb_route ::
    "lib \<Rightarrow> 'm materializer \<Rightarrow> envelope \<Rightarrow> 'm switchboard_state
     \<Rightarrow> (unit, switchboard_error) result \<times> 'm switchboard_state" where
  "sb_route L mat env st =
     (let (m, g) = st in
      case m_to (e_meta env) of
        None \<Rightarrow> (Err NoDestination, st)
      | Some to \<Rightarrow>
          (case mat_resolve mat m to of
             (Err e, m') \<Rightarrow> (Err (Materialize e), (m', g))
           | (Panic, m') \<Rightarrow> (Panic, (m', g))
           | (Ok thread_id, m') \<Rightarrow>
               (case encode_envelope L (env\<lparr>e_meta := (e_meta env)\<lparr>m_thread := thread_id\<rparr>\<rparr>) of
                  Err e \<Rightarrow> (Err (Encode e), (m', g))
                | Panic \<Rightarrow> (Panic, (m', g))
                | Ok bytes \<Rightarrow>
                    (case ingress_send bytes g of
                       (True, g') \<Rightarrow> (Ok (), (m', g'))
                     | (False, g') \<Rightarrow> (Err IngressClosed, (m', g'))))))"

definition sb_deliver :: "lib \<Rightarrow> 'm materializer \<Rightarrow> 'm switchboard_state delivery" where
  "sb_deliver L mat env st =
     (let (r, st') = sb_route L mat env st in (map_err switchboard_error_display r, st'))"

section \<open>Routing through the switchboard\<close>

lemma sb_route_cases:
  assumes "sb_route L mat env (m, g) = (r, st')"
  obtains (sent) to thread_id m' bytes where "m_to (e_meta env) = Some to"
      "mat_resolve mat m to = (Ok thread_id, m')"
      "encode_envelope L (env\<lparr>e_meta := (e_meta env)\<lparr>m_thread := thread_id\<rparr>\<rparr>) = Ok bytes" "ig_open g"
      "r = Ok ()" "st' = (m', g\<lparr>ig_sent := ig_sent g @ [bytes]\<rparr>)"
    | (failed) "r \<noteq> Ok ()" "snd st' = g"
  using assms
  by (cases "ig_open g")
    (auto simp: sb_route_def ingress_send_def split: option.splits prod.splits result.splits)

text \<open>The bytes injected are the envelope with the materializer's thread stamped on it.\<close>

definition carries_stamped :: "lib \<Rightarrow> u8 list \<Rightarrow> envelope \<Rightarrow> bool" where
  "carries_stamped L bytes env \<longleftrightarrow>
     (\<exists>t. encode_envelope L (env\<lparr>e_meta := (e_meta env)\<lparr>m_thread := t\<rparr>\<rparr>) = Ok bytes)"

interpretation switchboard: local_delivery "sb_deliver L mat" "\<lambda>st. ig_sent (snd st)" "carries_stamped L"
  for L :: lib and mat :: "'m materializer"
proof unfold_locales
  fix env and d d' :: "'m switchboard_state"
  assume "sb_deliver L mat env d = (Ok (), d')"
  then have r: "sb_route L mat env (fst d, snd d) = (Ok (), d')"
    by (auto simp: sb_deliver_def split: prod.splits)
  then show "\<exists>b. ig_sent (snd d') = ig_sent (snd d) @ [b] \<and> carries_stamped L b env"
    by (cases rule: sb_route_cases) (auto simp: carries_stamped_def)
next
  fix env and d d' :: "'m switchboard_state" and r
  assume "sb_deliver L mat env d = (r, d')" "r \<noteq> Ok ()"
  then obtain r' where r: "sb_route L mat env (fst d, snd d) = (r', d')" and "r' \<noteq> Ok ()"
    by (auto simp: sb_deliver_def split: prod.splits)
  from r show "ig_sent (snd d') = ig_sent (snd d)"
    by (cases rule: sb_route_cases) (use \<open>r' \<noteq> Ok ()\<close> in auto)
qed

lemma sb_route_fail_closed:
  assumes "sb_route L mat env st = (r, st')" "r \<noteq> Ok ()"
  shows "snd st' = snd st"
  using assms(1) assms(2)
  by (cases st, hypsubst) (erule sb_route_cases, auto)

end
