(* ===== verification/Federation_Claims.thy ===== *)
theory Federation_Claims
  imports Switchboard Sample_Xml
begin

text \<open>
  The properties of the node boundary: what a sealed frame proves, what reaches the pipeline's
  ingress through the federation server and the switchboard, and what leaves the node.
\<close>

section \<open>A concrete cipher\<close>

text \<open>A cipher with the laws of an AEAD (the key, nonce and associated data as a prefix).\<close>

definition sample_aead :: aead where
  "sample_aead = \<lparr>aead_encrypt = (\<lambda>k n m a. Some (k @ n @ a @ m)),
     aead_decrypt = (\<lambda>k n c a. if take (length (k @ n @ a)) c = k @ n @ a then Some (drop (length (k @ n @ a)) c) else None)\<rparr>"

lemma sample_aead_laws: "aead_laws sample_aead"
proof -
  have "take (length p) c = p \<and> drop (length p) c = m \<longleftrightarrow> p @ m = c" for p c m :: "u8 list"
    by (metis append_eq_conv_conj append_take_drop_id)
  from this [of "_ @ _ @ _"] show ?thesis
    by (simp add: aead_laws_def sample_aead_def) metis
qed

definition sample_peer :: peer where
  "sample_peer = \<lparr>peer_namespace = ''ringhub'', peer_endpoint = ''host'', peer_key = replicate 32 7,
     inbound_provenance = from_bit 5\<rparr>"

definition sample_dir :: peer_directory where
  "sample_dir = directory_register directory_new sample_peer"

definition hop_env :: envelope where
  "hop_env = \<lparr>e_meta = \<lparr>m_from = flat ''bob'', m_to = Some (flat ''echo''), m_thread = ''t1'',
     m_provenance = EMPTY\<rparr>, e_payload = payload_single ''Greeting'' ''text'' ''hi''\<rparr>"

definition hop_frame :: "u8 list" where
  "hop_frame = (case seal sample_lib sample_aead (Some (replicate 24 0)) hop_env ''ringhub'' (peer_key sample_peer) of
     Ok f \<Rightarrow> f | _ \<Rightarrow> [])"

lemma hop_wf: "wf_envelope sample_lib hop_env"
proof -
  have plain: "plain_name ''bob''" "plain_name ''echo''"
    by (simp_all add: plain_name_def)
  have disp: "address_display (flat n) = n" for n
    by (simp add: address_display_def seg_display_def)
  have "meta_text s" if "printable s" "s \<noteq> []" for s
    using that by (simp add: meta_text_def trim_printable xml_trim_printable)
  then show ?thesis
    by (simp add: wf_envelope_def wf_meta_def hop_env_def wf_flat plain disp payload_single_def attr_ok_def
        no_markup_def printable_utf8 text_ok_def code_def)
qed

lemma hop_norm: "norm_envelope hop_env = hop_env"
  by (simp add: norm_envelope_def hop_env_def payload_single_def xml_trim_printable code_def)

lemma hop_sealed: "seal sample_lib sample_aead (Some (replicate 24 0)) hop_env ''ringhub'' (peer_key sample_peer) = Ok hop_frame"
  by (simp add: hop_frame_def seal_def encode_envelope_bytes sample_xml_laws Let_def key_ok_def sample_peer_def
      sample_aead_def)

lemma sample_dir_get: "directory_get sample_dir ''ringhub'' = Some sample_peer"
  by (simp add: sample_dir_def peer_table.get_put) (simp add: sample_peer_def)

section \<open>Frames\<close>

text \<open>
  C8. Frames are authentic: the frames that open are, byte for byte, those that sealing under the
  key registered for the sender they name produces, header included, from the bytes of an
  envelope; so an accepted sender, header and envelope cannot be relabelled or altered by anyone
  without that key, and nothing a registered peer sends is refused, for names of at most 65535 bytes.
\<close>

theorem opened_frames_are_sealed:
  assumes "aead_laws A"
  shows "open_frame L A frame d = Ok (env, sender) \<longleftrightarrow>
    (\<exists>p pt n ct. directory_get d sender = Some p \<and> key_ok (peer_key p) \<and> length n = NONCE_LEN \<and>
       length sender < 65536 \<and> utf8_valid sender \<and> frame = encode_header sender @ n @ ct \<and>
       aead_encrypt A (peer_key p) n pt (encode_header sender) = Some ct \<and> decode_envelope L pt = Ok env)"
  using open_frame_sound [OF assms] open_frame_complete [OF assms] by (auto simp: NONCE_LEN_def)

text \<open>
  Sealed frames open: a well-formed envelope sealed by a node opens at a peer that has the
  node registered with the same key, to the same envelope (in normal form) and that sender, for
  every node name of at most 65535 bytes.
\<close>

theorem sealed_frames_open:
  assumes "aead_laws A" "xml_laws L" "escape_laws L" "wf_envelope L env"
    and "seal L A nonce env sender (peer_key p) = Ok frame" "\<And>n. nonce = Some n \<Longrightarrow> length n = 24"
    and "length sender < 65536" "utf8_valid sender" "directory_get d sender = Some p"
  shows "open_frame L A frame d = Ok (norm_envelope env, sender)"
  using open_seal [OF assms(1,5,6,7,8,9)] decode_encode_env [OF assms(2-4)] by simp

lemma ringhub_utf8: "utf8_valid ''ringhub''"
  by (simp add: printable_utf8 code_def)

theorem sealed_frames_open_witness:
  "open_frame sample_lib sample_aead hop_frame sample_dir = Ok (hop_env, ''ringhub'')"
  using sealed_frames_open [OF sample_aead_laws sample_xml_laws sample_escape_laws hop_wf hop_sealed _ _
      ringhub_utf8 sample_dir_get] hop_norm
  by simp

lemma hop_opened: "open_frame sample_lib sample_aead hop_frame sample_dir = Ok (hop_env, ''ringhub'')"
  using open_seal [OF sample_aead_laws hop_sealed _ _ ringhub_utf8 sample_dir_get] hop_norm
    decode_encode_env [OF sample_xml_laws sample_escape_laws hop_wf]
  by simp

theorem opened_frames_are_sealed_witness:
  "\<exists>p. directory_get sample_dir ''ringhub'' = Some p \<and>
     (\<exists>n ct. length n = NONCE_LEN \<and> hop_frame = encode_header ''ringhub'' @ n @ ct)"
  using hop_opened unfolding opened_frames_are_sealed [OF sample_aead_laws] by blast

text \<open>
  The frame's sender length is 16 bits wide and the sender's length is truncated to it: the
  header of a name of 65536 bytes more than a prefix parses as that prefix.
\<close>

theorem long_sender_truncated:
  assumes "length sender = 65536 + k" "k < 65536" "utf8_valid (take k sender)"
  shows "\<exists>h. parse_header (encode_header sender @ body) = Ok (h, take k sender, 4 + k)"
proof -
  have "(word_of_nat (65536 + k) :: u16) = word_of_nat k"
    by simp
  then have "to_be_bytes (word_of_nat (length sender)) = to_be_bytes (word_of_nat k)"
    by (simp only: assms(1))
  then have hdr: "encode_header sender @ body = encode_header (take k sender) @ as_bytes (drop k sender) @ body"
    using assms(1) by (simp add: encode_header_def as_bytes_def min_def flip: map_append)
  show ?thesis
    using parse_encode_header [of "take k sender" "as_bytes (drop k sender) @ body"] assms
    unfolding hdr by simp
qed

theorem long_sender_truncated_witness:
  "\<exists>h. parse_header (encode_header (replicate 65537 CHR ''a'') @ []) = Ok (h, ''a'', 5)"
proof -
  have t: "take 1 (replicate 65537 CHR ''a'') = ''a''"
    by simp
  show ?thesis
    using long_sender_truncated [of "replicate 65537 CHR ''a''" 1 "[]"] unfolding t
    by (simp add: printable_utf8 code_def)
qed

section \<open>Inbound\<close>


text \<open>A node, its host's hooks, and one frame received.\<close>

definition sample_srv :: federation_server where
  "sample_srv = \<lparr>fs_node = ''agentos'', fs_directory = sample_dir, fs_authorizer = allow_all\<rparr>"

definition sample_mat :: "unit materializer" where
  "sample_mat = \<lparr>mat_resolve = (\<lambda>s a. (Ok ''inst-1'', s)), mat_evict = no_evict\<rparr>"

definition idle_board :: "unit switchboard_state" where
  "idle_board = ((), \<lparr>ig_open = True, ig_sent = []\<rparr>)"

lemma hop_received:
  "\<exists>bytes. ig_sent (snd (snd (fed_receive sample_lib sample_aead (sb_deliver sample_lib sample_mat) sample_srv hop_frame idle_board))) = [bytes]"
  by (simp add: fed_receive_def sample_srv_def hop_opened authorize_inbound_def allow_all_def sb_deliver_def
      sb_route_def idle_board_def sample_mat_def encode_envelope_bytes sample_xml_laws ingress_send_def hop_env_def
      Let_def)


text \<open>
  C29. The authorizer is asked about the address as received, with this node's prefix: an address
  \<open>node.s.rest\<close> that it lets pass is delivered as \<open>s.rest\<close>, about which it was never asked.
\<close>

theorem authorized_before_strip:
  assumes "open_frame L A frame (fs_directory srv) = Ok (env, sender)"
    and "m_to (e_meta env) = Some \<lparr>segments = \<lparr>seg_name = fs_node srv, seg_key = k\<rparr> # s # rest\<rparr>"
    and "fs_authorizer srv (reroot_origin (m_from (e_meta env)) sender)
      \<lparr>segments = \<lparr>seg_name = fs_node srv, seg_key = k\<rparr> # s # rest\<rparr> = Ok ()"
  shows "\<exists>env'. fed_receive L A (\<lambda>e d. (Ok (), e # d)) srv frame [] = (Ok (), [env']) \<and>
    m_to (e_meta env') = Some \<lparr>segments = s # rest\<rparr>"
  using assms
  by (auto simp: fed_receive_def authorize_inbound_def strip_node_def Let_def)

text \<open>An authorizer that keeps remote senders out of the namespace \<open>root\<close>, and a frame past it.\<close>

definition no_root :: authorizer where
  "no_root frm to = (if node to = Some ''root'' then Err ''root is closed'' else Ok ())"

definition root_env :: envelope where
  "root_env = hop_env\<lparr>e_meta := (e_meta hop_env)\<lparr>m_to := Some \<lparr>segments = [\<lparr>seg_name = ''agentos'', seg_key = None\<rparr>,
     \<lparr>seg_name = ''root'', seg_key = None\<rparr>, \<lparr>seg_name = ''coder'', seg_key = Some ''x''\<rparr>]\<rparr>\<rparr>\<rparr>"

definition root_srv :: federation_server where
  "root_srv = sample_srv\<lparr>fs_authorizer := no_root\<rparr>"

lemma root_wf: "wf_envelope sample_lib root_env"
proof -
  let ?to = "\<lparr>segments = [\<lparr>seg_name = ''agentos'', seg_key = None\<rparr>,
     \<lparr>seg_name = ''root'', seg_key = None\<rparr>, \<lparr>seg_name = ''coder'', seg_key = Some ''x''\<rparr>]\<rparr>"
  have d: "address_display ?to = ''agentos.root.coder[x]''"
    by (simp add: address_display_def seg_display_def)
  have "parse_address ''agentos.root.coder[x]'' = Ok ?to"
    by code_simp
  then have "wf_address ?to" by (rule parse_address_wf)
  moreover have "meta_text ''agentos.root.coder[x]''"
    by (simp add: meta_text_def trim_printable xml_trim_printable code_def)
  ultimately show ?thesis
    using hop_wf by (simp add: wf_envelope_def wf_meta_def root_env_def d)
qed

definition root_frame :: "u8 list" where
  "root_frame = (case seal sample_lib sample_aead (Some (replicate 24 0)) root_env ''ringhub'' (peer_key sample_peer) of
     Ok f \<Rightarrow> f | _ \<Rightarrow> [])"

lemma root_sealed: "seal sample_lib sample_aead (Some (replicate 24 0)) root_env ''ringhub'' (peer_key sample_peer) = Ok root_frame"
  by (simp add: root_frame_def seal_def encode_envelope_bytes sample_xml_laws Let_def key_ok_def sample_peer_def
      sample_aead_def)

lemma root_opened: "open_frame sample_lib sample_aead root_frame sample_dir = Ok (root_env, ''ringhub'')"
proof -
  have "norm_envelope root_env = root_env"
    by (simp add: norm_envelope_def root_env_def hop_env_def payload_single_def xml_trim_printable code_def)
  then show ?thesis
    using open_seal [OF sample_aead_laws root_sealed _ _ ringhub_utf8 sample_dir_get]
      decode_encode_env [OF sample_xml_laws sample_escape_laws root_wf]
    by simp
qed

theorem authorized_before_strip_witness:
  "\<exists>env'. fed_receive sample_lib sample_aead (\<lambda>e d. (Ok (), e # d)) root_srv root_frame [] = (Ok (), [env']) \<and>
     node (the (m_to (e_meta env'))) = Some ''root''"
proof -
  have o: "open_frame sample_lib sample_aead root_frame (fs_directory root_srv) = Ok (root_env, ''ringhub'')"
    by (simp add: root_opened root_srv_def sample_srv_def)
  from authorized_before_strip [OF o, where k = None and s = "\<lparr>seg_name = ''root'', seg_key = None\<rparr>"
      and rest = "[\<lparr>seg_name = ''coder'', seg_key = Some ''x''\<rparr>]"]
  show ?thesis
    by (auto simp: root_env_def root_srv_def sample_srv_def no_root_def node_def get_at_def)
qed

section \<open>Outbound\<close>

text \<open>
  What leaves the node for one envelope: the server transmits exactly when the destination's leading segment is
  a registered peer and sealing succeeds, then one frame, sealed under that peer's key in this
  node's name, to that peer's endpoint; otherwise it reports why and the transport is not used.
\<close>

theorem outbound_frames:
  shows "fed_send L A (\<lambda>ep f sent. (Ok (), sent @ [(ep, f)])) srv nonce env [] =
    (case Option.bind (m_to (e_meta env)) node of
       None \<Rightarrow> (Err FedNoDestination, [])
     | Some n \<Rightarrow>
         (case directory_get (fs_directory srv) n of
            None \<Rightarrow> (Err (NotRemote n), [])
          | Some p \<Rightarrow>
              (case seal L A nonce env (fs_node srv) (peer_key p) of
                 Ok frame \<Rightarrow> (Ok (), [(peer_endpoint p, frame)])
               | Err e \<Rightarrow> (Err e, [])
               | Panic \<Rightarrow> (Panic, []))))"
  by (simp add: fed_send_def node_def get_at_def split: option.split list.split result.split)

text \<open>A transport that records what it sends, and fails for endpoints that are down.\<close>

definition flaky :: "(string \<Rightarrow> bool) \<Rightarrow> (string \<times> u8 list) list transport" where
  "flaky up ep frame sent = (if up ep then (Ok (), sent @ [(ep, frame)]) else (Err ''unreachable'', sent))"

text \<open>The endpoint and the frame an envelope leaves as, if it leaves.\<close>

definition outbound :: "lib \<Rightarrow> aead \<Rightarrow> federation_server \<Rightarrow> envelope \<times> u8 list option \<Rightarrow> (string \<times> u8 list) option" where
  "outbound L A srv item =
     (case item of (env, nonce) \<Rightarrow>
        Option.bind (Option.bind (m_to (e_meta env)) node) (\<lambda>n.
        Option.bind (directory_get (fs_directory srv) n) (\<lambda>p.
        case seal L A nonce env (fs_node srv) (peer_key p) of
          Ok frame \<Rightarrow> Some (peer_endpoint p, frame) | _ \<Rightarrow> None)))"

lemma seal_not_panic: "xml_laws L \<Longrightarrow> seal L A nonce env sender key \<noteq> Panic"
  by (simp add: seal_def encode_envelope_bytes Let_def result_iffs)

lemma fed_send_flaky:
  assumes "xml_laws L"
  shows "fed_send L A (flaky up) srv nonce env sent =
    (fst (fed_send L A (flaky up) srv nonce env []),
     sent @ filter (\<lambda>x. up (fst x)) (case outbound L A srv (env, nonce) of None \<Rightarrow> [] | Some x \<Rightarrow> [x]))"
    "fst (fed_send L A (flaky up) srv nonce env []) \<noteq> Panic"
  using seal_not_panic [OF assms]
  by (auto simp: fed_send_def flaky_def outbound_def node_def get_at_def map_filter_simps
      split: option.split list.split result.split)

text \<open>
  C22. The egress loop: the server sends, in order, exactly the envelopes whose destination's
  leading segment is a registered peer that can be sealed for and whose endpoint is up, each as one
  frame sealed under that peer's key to that peer's endpoint; what one envelope fails with is
  reported and holds up none of the others.
\<close>

theorem egress_in_order:
  assumes "xml_laws L"
  shows "run_egress L A (flaky up) srv rx sent =
    (map (\<lambda>(env, nonce). fst (fed_send L A (flaky up) srv nonce env [])) rx,
     sent @ filter (\<lambda>x. up (fst x)) (List.map_filter (outbound L A srv) rx))"
proof (induction rx arbitrary: sent)
  case Nil
  then show ?case by (simp add: map_filter_simps)
next
  case (Cons item rx)
  obtain env nonce where item: "item = (env, nonce)" by fastforce
  have more: "List.map_filter (outbound L A srv) (item # rx) =
      (case outbound L A srv (env, nonce) of None \<Rightarrow> [] | Some x \<Rightarrow> [x]) @ List.map_filter (outbound L A srv) rx"
    by (simp add: item map_filter_simps split: option.split)
  note send = fed_send_flaky [where A = A and up = up and srv = srv and nonce = nonce and env = env, OF assms]
  show ?case
    unfolding more
    by (cases "fst (fed_send L A (flaky up) srv nonce env [])")
      (use send(2) in \<open>simp_all add: item send(1) [of sent] Cons.IH\<close>)
qed

text \<open>A node with one peer: of two envelopes the first is for no peer.\<close>

definition ringhub_srv :: federation_server where
  "ringhub_srv = \<lparr>fs_node = ''ringhub'', fs_directory = directory_register directory_new
     (sample_peer\<lparr>peer_namespace := ''agentos''\<rparr>), fs_authorizer = allow_all\<rparr>"

lemma ringhub_peers:
  "directory_get (fs_directory ringhub_srv) n = (if n = ''agentos'' then Some (sample_peer\<lparr>peer_namespace := ''agentos''\<rparr>) else None)"
  by (simp add: ringhub_srv_def directory_get_def directory_register_def directory_new_def)

theorem egress_in_order_witness:
  "snd (run_egress sample_lib sample_aead (flaky (\<lambda>ep. ep = ''host'')) ringhub_srv
      [(hop_env, Some (replicate 24 0)), (root_env, Some (replicate 24 0))] []) = [(''host'', root_frame)]"
proof -
  have "outbound sample_lib sample_aead ringhub_srv (hop_env, Some (replicate 24 0)) = None"
    by (simp add: outbound_def hop_env_def ringhub_peers)
  moreover have "outbound sample_lib sample_aead ringhub_srv (root_env, Some (replicate 24 0)) = Some (''host'', root_frame)"
    using root_sealed by (simp add: outbound_def root_env_def node_def get_at_def ringhub_peers)
      (simp add: root_env_def ringhub_srv_def sample_peer_def)
  ultimately show ?thesis
    unfolding egress_in_order [OF sample_xml_laws] by (simp add: map_filter_simps)
qed

end
