(* ===== verification/Interop.thy ===== *)
theory Interop
  imports Federation_Claims
begin

text \<open>
  \<open>examples/fed_interop.rs\<close>: the command-line harness with which another implementation of the
  federation frame is compared.  The program's arguments are a list, its outcome the line it
  prints (\<open>Ok\<close>), its exit code (\<open>Err\<close>) or a panic.
\<close>

section \<open>The program\<close>

fun unwrap :: "('a, 'e) result \<Rightarrow> ('a, 'f) result" where
  "unwrap (Ok x) = Ok x"
| "unwrap (Err e) = Panic"
| "unwrap Panic = Panic"

definition KEY :: peer_key where
  "KEY = replicate 32 7"

definition fixed_env :: "(envelope, 'e) result" where
  "fixed_env =
     bindR (unwrap (parse_address ''ringhub.bob'')) (\<lambda>frm.
     bindR (unwrap (parse_address ''agentos.concierge[alice]'')) (\<lambda>to.
     Ok \<lparr>e_meta = \<lparr>m_from = frm, m_to = Some to, m_thread = ''t-interop'', m_provenance = from_bit 3\<rparr>,
         e_payload = \<lparr>pl_tag = ''Order'',
           pl_value = Rec [Field ''item'' (Text ''two coffees''), Field ''qty'' (Uint 2)]\<rparr>\<rparr>))"

definition summary :: "envelope \<Rightarrow> string" where
  "summary env =
     (let m = e_meta env; pl = e_payload env;
          item = (case Option.bind (pv_get (pl_value pl) ''item'') as_text of Some t \<Rightarrow> t | None \<Rightarrow> ''?'');
          qty = (case pv_get (pl_value pl) ''qty'' of Some (Uint n) \<Rightarrow> show_u64 n | _ \<Rightarrow> ''?'')
      in join_with ''|''
           [address_display (m_from m), (case m_to m of Some a \<Rightarrow> address_display a | None \<Rightarrow> []),
            m_thread m, show_u64 (bits_lo (m_provenance m)), pl_tag pl, item, qty])"

definition interop_directory :: peer_directory where
  "interop_directory =
     directory_register directory_new
       \<lparr>peer_namespace = ''ringhub'', peer_endpoint = ''x'', peer_key = KEY, inbound_provenance = EMPTY\<rparr>"

definition frame_to_hex :: "u8 list \<Rightarrow> string" where
  "frame_to_hex b = concat (map (\<lambda>x. hex_pad 2 (unat x)) b)"

text \<open>Unlike the codec's, this reader panics on an odd length and on a bad digit.\<close>

fun frame_pairs :: "string \<Rightarrow> nat list \<Rightarrow> (u8 list, 'e) result" where
  "frame_pairs s [] = Ok []"
| "frame_pairs s (i # is) =
     bindR (str_slice s i (i + 2)) (\<lambda>p.
     bindR (unwrap (ok_or () (from_str_radix 16 256 p))) (\<lambda>n.
     bindR (frame_pairs s is) (\<lambda>bs. Ok (word_of_nat n # bs))))"

definition frame_from_hex :: "string \<Rightarrow> (u8 list, 'e) result" where
  "frame_from_hex s = frame_pairs s (map (\<lambda>i. 2 * i) [0..<(length s + 1) div 2])"

definition interop_main :: "lib \<Rightarrow> aead \<Rightarrow> u8 list option \<Rightarrow> string list \<Rightarrow> (string, int) result" where
  "interop_main L A nonce args =
     (case get_at args 1 of
        None \<Rightarrow> Err 2
      | Some command \<Rightarrow>
          if command = ''expected'' then bindR fixed_env (\<lambda>env. Ok (summary env))
          else if command = ''seal'' then
            bindR fixed_env (\<lambda>env.
            bindR (unwrap (seal L A nonce env ''ringhub'' KEY)) (\<lambda>frame. Ok (frame_to_hex frame)))
          else if command = ''open'' then
            (case get_at args 2 of
               None \<Rightarrow> Panic
             | Some hex \<Rightarrow>
                 bindR (frame_from_hex hex) (\<lambda>frame.
                 bindR (unwrap (open_frame L A frame interop_directory)) (\<lambda>(env, sender).
                 if sender \<noteq> ''ringhub'' then Panic else Ok (summary env))))
          else Err 2)"

section \<open>Hexadecimal\<close>

lemma unwrap_eq_Ok [simp]: "unwrap r = Ok x \<longleftrightarrow> r = Ok x"
  by (cases r) simp_all

lemma frame_to_hex_codec: "frame_to_hex b = to_hex b"
  by (simp add: frame_to_hex_def to_hex_def)

text \<open>Where the codec's reader accepts, this one gives the same bytes.\<close>

lemma frame_pairs_codec: "hex_pairs s is = Ok bs \<Longrightarrow> frame_pairs s is = Ok bs"
proof (induction "is" arbitrary: bs)
  case (Cons i js)
  then obtain p n bs' where "(str_slice s i (i + 2) :: (string, pipeline_error) result) = Ok p"
    and "from_str_radix 16 256 p = Some n" "hex_pairs s js = Ok bs'" "bs = word_of_nat n # bs'"
    by (auto simp: result_iffs)
  moreover from this(1) have "(str_slice s i (i + 2) :: (string, 'a) result) = Ok p"
    by (auto simp: str_slice_def split: if_splits)
  ultimately show ?case
    using Cons.IH by simp
qed simp

lemma frame_from_to_hex: "frame_from_hex (frame_to_hex b) = Ok b"
proof -
  have "from_hex (to_hex b) = Ok b" by (rule from_to_hex)
  then have "hex_pairs (to_hex b) (map (\<lambda>i. 2 * i) [0..<length b]) = Ok b"
    by (simp add: from_hex_def trim_printable [OF to_hex_printable] to_hex_length)
  then show ?thesis
    by (simp add: frame_from_hex_def frame_to_hex_codec to_hex_length frame_pairs_codec)
qed

lemma frame_from_hex_odd: "odd (length s) \<Longrightarrow> frame_from_hex s \<noteq> Ok bs"
proof
  assume odd: "odd (length s)" and ok: "frame_from_hex s = Ok bs"
  have in_range: "i + 2 \<le> length s" if "frame_pairs s js = Ok bs" "i \<in> set js" for js i bs
    using that
  proof (induction js arbitrary: bs)
    case (Cons j js)
    then show ?case
      by (fastforce simp: result_iffs str_slice_def split: if_splits)
  qed simp
  from odd obtain k where k: "length s = 2 * k + 1" by (elim oddE)
  have "2 * k \<in> set (map (\<lambda>i. 2 * i) [0..<(length s + 1) div 2])"
    by (simp add: k)
  from in_range [OF ok [unfolded frame_from_hex_def] this] show False
    by (simp add: k)
qed

section \<open>Sealing and opening\<close>

definition order_env :: envelope where
  "order_env = \<lparr>e_meta = \<lparr>m_from = \<lparr>segments = [\<lparr>seg_name = ''ringhub'', seg_key = None\<rparr>, \<lparr>seg_name = ''bob'', seg_key = None\<rparr>]\<rparr>,
       m_to = Some \<lparr>segments = [\<lparr>seg_name = ''agentos'', seg_key = None\<rparr>, \<lparr>seg_name = ''concierge'', seg_key = Some ''alice''\<rparr>]\<rparr>,
       m_thread = ''t-interop'', m_provenance = from_bit 3\<rparr>,
     e_payload = \<lparr>pl_tag = ''Order'', pl_value = Rec [Field ''item'' (Text ''two coffees''), Field ''qty'' (Uint 2)]\<rparr>\<rparr>"

lemma order_addresses:
  "parse_address ''ringhub.bob'' = Ok (m_from (e_meta order_env))"
  "parse_address ''agentos.concierge[alice]'' = Ok (the (m_to (e_meta order_env)))"
  unfolding order_env_def by code_simp+

lemma fixed_env_order: "fixed_env = Ok order_env"
  by (simp add: fixed_env_def order_addresses) (simp add: order_env_def)

lemma order_summary: "summary order_env = ''ringhub.bob|agentos.concierge[alice]|t-interop|8|Order|two coffees|2''"
  unfolding order_env_def by code_simp

lemma order_display:
  "address_display (m_from (e_meta order_env)) = ''ringhub.bob''"
  "address_display (the (m_to (e_meta order_env))) = ''agentos.concierge[alice]''"
  using address_display_parse order_addresses by blast+

lemma order_wf: "wf_envelope L order_env"
proof -
  have "meta_text s" if "printable s" "s \<noteq> []" for s
    using that by (simp add: meta_text_def trim_printable xml_trim_printable)
  then show ?thesis
    using parse_address_wf [OF order_addresses(1)] parse_address_wf [OF order_addresses(2)] order_display
    by (simp add: wf_envelope_def wf_meta_def order_env_def attr_ok_def no_markup_def printable_utf8 text_ok_def code_def)
qed

lemma order_norm: "norm_envelope order_env = order_env"
  by (simp add: norm_envelope_def order_env_def xml_trim_def xml_ws_def code_def)

lemma directory_ringhub: "directory_get interop_directory ''ringhub'' =
    Some \<lparr>peer_namespace = ''ringhub'', peer_endpoint = ''x'', peer_key = KEY, inbound_provenance = EMPTY\<rparr>"
  by (simp add: interop_directory_def directory_get_def directory_register_def)



end
