(* ===== verification/Python_Client.thy ===== *)
theory Python_Client
  imports Federation
begin

text \<open>
  \<open>python/rust_pipeline_federation.py\<close>: the Python mirror of the federation frame, with its own
  address parser, envelope codec, peer directory and server.  A \<open>str\<close> is read as its UTF-8 bytes,
  an \<open>int\<close> is unbounded, an exception is an \<open>Err\<close>.  \<open>Segment\<close> and \<open>Address\<close> have the fields of the
  Rust structs and share their records.  The XML parser of the standard library, the cipher of
  PyNaCl and the conversion of floats are parameters; \<open>str.strip\<close>, \<open>int\<close>, \<open>bytes.fromhex\<close> and the
  escaping functions are written out (\<open>int\<close> for ASCII digits).
\<close>

section \<open>The standard library\<close>

datatype exn = ValueError message | StructError | AttributeError | StopIteration | ParseError | CryptoError

definition value_error :: "string \<Rightarrow> exn" where
  "value_error s = ValueError (Msg s [])"

text \<open>\<open>ElementTree\<close>: a parsed element with its attributes, the text before its first child, its children.\<close>

datatype element = Element (el_tag: string) (el_attrs: "(string \<times> string) list") (el_text: "string option")
  (el_kids: "element list")

record pystd =
  et_fromstring :: "u8 list \<Rightarrow> element option"
  py_repr :: "f64 \<Rightarrow> string"
  py_float :: "string \<Rightarrow> f64 option"

text \<open>
  \<open>str.strip\<close>: the white space of Rust's \<open>trim\<close> and the four separators 28 to 31.
\<close>

definition py_separator :: "char \<Rightarrow> bool" where
  "py_separator c \<longleftrightarrow> 28 \<le> code c \<and> code c \<le> 31"

lemma trim_start_length: "length (trim_start s) \<le> length s"
  by (induction s rule: trim_start.induct) auto

lemma trim_end_rev_length: "length (trim_end_rev s) \<le> length s"
  by (induction s rule: trim_end_rev.induct) auto

lemma trim_start_shrinks: "trim_start s = c # r \<Longrightarrow> length r < length s"
  using trim_start_length [of s] by simp

lemma trim_end_rev_shrinks: "trim_end_rev s = c # r \<Longrightarrow> length r < length s"
  using trim_end_rev_length [of s] by simp

function py_lstrip :: "string \<Rightarrow> string" where
  "py_lstrip s = (case trim_start s of [] \<Rightarrow> [] | c # r \<Rightarrow> if py_separator c then py_lstrip r else c # r)"
  by pat_completeness auto
termination py_lstrip
  by (relation "measure length") (auto dest: trim_start_shrinks)

function py_rstrip_rev :: "string \<Rightarrow> string" where
  "py_rstrip_rev s = (case trim_end_rev s of [] \<Rightarrow> [] | c # r \<Rightarrow> if py_separator c then py_rstrip_rev r else c # r)"
  by pat_completeness auto
termination py_rstrip_rev
  by (relation "measure length") (auto dest: trim_end_rev_shrinks)

declare py_lstrip.simps [simp del] py_rstrip_rev.simps [simp del]

definition py_strip :: "string \<Rightarrow> string" where
  "py_strip s = rev (py_rstrip_rev (rev (py_lstrip s)))"

text \<open>\<open>int(s, base)\<close>: white space, a sign, a prefix \<open>0x\<close>, digits with single underscores between them.\<close>

definition py_prefix :: "nat \<Rightarrow> string \<Rightarrow> string" where
  "py_prefix base s =
     (if base = 16 \<and> (take 2 s = ''0x'' \<or> take 2 s = ''0X'')
      then (let r = drop 2 s in if take 1 r = ''_'' then drop 1 r else r) else s)"

definition py_digits :: "nat \<Rightarrow> string \<Rightarrow> nat option" where
  "py_digits base s = (let ps = split_on CHR ''_'' s in
     if [] \<in> set ps then None else digits_value base 0 (concat ps))"

definition py_int :: "nat \<Rightarrow> string \<Rightarrow> (int, exn) result" where
  "py_int base s =
     (let t = py_strip s;
          (neg, u) = (case t of [] \<Rightarrow> (False, []) | c # r \<Rightarrow>
             if c = CHR ''-'' then (True, r) else if c = CHR ''+'' then (False, r) else (False, t))
      in case py_digits base (py_prefix base u) of
           None \<Rightarrow> Err (ValueError (Msg ''invalid literal for int() with base {}: {!r}'' [show_nat base, s]))
         | Some n \<Rightarrow> Ok (if neg then - int n else int n))"

definition py_str_int :: "int \<Rightarrow> string" where
  "py_str_int n = (if n < 0 then CHR ''-'' # show_nat (nat (- n)) else show_nat (nat n))"

fun py_fromhex :: "string \<Rightarrow> (u8 list, exn) result" where
  "py_fromhex [] = Ok []"
| "py_fromhex (c # r) =
     (if ascii_ws c then py_fromhex r
      else (case (to_digit 16 c, r) of
        (Some a, d # r') \<Rightarrow>
          (case to_digit 16 d of
             Some b \<Rightarrow> bindR (py_fromhex r') (\<lambda>bs. Ok (word_of_nat (16 * a + b) # bs))
           | None \<Rightarrow> Err (value_error ''non-hexadecimal number found in fromhex() arg''))
      | _ \<Rightarrow> Err (value_error ''non-hexadecimal number found in fromhex() arg'')))"

definition xml_sax_char :: "char \<Rightarrow> string" where
  "xml_sax_char c = (if c = CHR ''&'' then ''&amp;'' else if c = CHR ''>'' then ''&gt;''
     else if c = CHR ''<'' then ''&lt;'' else [c])"

definition sax_escape :: "string \<Rightarrow> string" where
  "sax_escape s = concat (map xml_sax_char s)"

definition sax_quoteattr :: "string \<Rightarrow> string" where
  "sax_quoteattr s =
     (let t = concat (map (\<lambda>c. if code c = 10 then ''&#10;'' else if code c = 13 then ''&#13;''
            else if code c = 9 then ''&#9;'' else xml_sax_char c) s)
      in if CHR 0x22 \<in> set t then
           (if CHR 0x27 \<in> set t
            then [CHR 0x22] @ concat (map (\<lambda>c. if c = CHR 0x22 then ''&quot;'' else [c]) t) @ [CHR 0x22]
            else [CHR 0x27] @ t @ [CHR 0x27])
         else [CHR 0x22] @ t @ [CHR 0x22])"

section \<open>Addresses\<close>

text \<open>The loop of \<open>Address.parse\<close>: the characters left, the segment's name and key, \<open>in_bracket\<close>.\<close>

fun py_parse_loop ::
    "string \<Rightarrow> string \<Rightarrow> string option \<Rightarrow> bool \<Rightarrow> segment list
     \<Rightarrow> (string \<times> string option \<times> bool \<times> segment list, exn) result" where
  "py_parse_loop [] name key in_bracket segs = Ok (name, key, in_bracket, segs)"
| "py_parse_loop (ch # rest) name key in_bracket segs =
     (if ch = CHR ''['' then
        (if in_bracket then Err (value_error ''unclosed bracket'')
         else py_parse_loop rest name (Some []) True segs)
      else if ch = CHR '']'' then
        (if \<not> in_bracket then Err (value_error ''unexpected ]'')
         else py_parse_loop rest name key False segs)
      else if ch = CHR ''.'' \<and> \<not> in_bracket then
        (if name = [] then Err (value_error ''empty segment name'')
         else py_parse_loop rest [] None False (segs @ [\<lparr>seg_name = name, seg_key = key\<rparr>]))
      else if in_bracket then py_parse_loop rest name (map_option (\<lambda>k. k @ [ch]) key) True segs
      else py_parse_loop rest (name @ [ch]) key False segs)"

definition py_parse :: "string \<Rightarrow> (address, exn) result" where
  "py_parse s0 =
     (let s = py_strip s0 in
      if s = [] then Err (value_error ''empty address'')
      else bindR (py_parse_loop s [] None False []) (\<lambda>(name, key, in_bracket, segs).
        if in_bracket then Err (value_error ''unclosed bracket'')
        else
          (let segs' = (if name \<noteq> [] then segs @ [\<lparr>seg_name = name, seg_key = key\<rparr>] else segs) in
           if segs' = [] then Err (value_error ''empty address'') else Ok \<lparr>segments = segs'\<rparr>)))"

definition py_seg_str :: "segment \<Rightarrow> string" where
  "py_seg_str s = (case seg_key s of Some k \<Rightarrow> seg_name s @ ''['' @ k @ '']'' | None \<Rightarrow> seg_name s)"

definition py_str :: "address \<Rightarrow> string" where
  "py_str a = join_with ''.'' (map py_seg_str (segments a))"

fun py_org_loop :: "nat \<Rightarrow> segment list \<Rightarrow> nat" where
  "py_org_loop i [] = 0"
| "py_org_loop i (s # ss) = (if seg_key s \<noteq> None then i else py_org_loop (i + 1) ss)"

definition py_org_idx :: "address \<Rightarrow> nat" where
  "py_org_idx a = py_org_loop 0 (segments a)"

definition py_organism :: "address \<Rightarrow> string option" where
  "py_organism a = (if segments a = [] then None else Some (seg_name (segments a ! py_org_idx a)))"

definition py_namespace :: "address \<Rightarrow> string option" where
  "py_namespace a = (if py_org_idx a > 0 then Some (seg_name (segments a ! 0)) else None)"

definition py_node :: "address \<Rightarrow> string option" where
  "py_node a = (if segments a = [] then None else Some (seg_name (segments a ! 0)))"

definition py_instance_key :: "address \<Rightarrow> string option" where
  "py_instance_key a = (let i = py_org_idx a in if i < length (segments a) then seg_key (segments a ! i) else None)"

definition py_buffer :: "address \<Rightarrow> segment option" where
  "py_buffer a = (let i = py_org_idx a in if length (segments a) > i + 1 then Some (segments a ! (i + 1)) else None)"

definition py_seg_cache_keys :: "segment \<Rightarrow> string list" where
  "py_seg_cache_keys s = (case seg_key s of None \<Rightarrow> [] | Some k \<Rightarrow> if k = [] then [] else split_on CHR ''+'' k)"

definition py_cache_keys :: "address \<Rightarrow> string list" where
  "py_cache_keys a = (if segments a = [] then [] else py_seg_cache_keys (segments a ! py_org_idx a))"

definition py_instance_address :: "address \<Rightarrow> address" where
  "py_instance_address a = \<lparr>segments = take (py_org_idx a + 1) (segments a)\<rparr>"

section \<open>Values and envelopes\<close>

text \<open>A field's name and a payload's tag are what \<open>Element.get\<close> returns, so they may be \<open>None\<close>.\<close>

datatype py_value =
    PyRec "py_field list"
  | PySeq "py_value list"
  | PyText string
  | PyUint int
  | PySint int
  | PyReal f64
  | PyBoolean bool
  | PyBlob "u8 list"
  | PyNil
and py_field = PyField "string option" py_value

fun py_get :: "py_value \<Rightarrow> string \<Rightarrow> py_value option" where
  "py_get (PyRec []) name = None"
| "py_get (PyRec (PyField n v # fs)) name = (if n = Some name then Some v else py_get (PyRec fs) name)"
| "py_get _ name = None"

fun py_as_text :: "py_value \<Rightarrow> string option" where
  "py_as_text (PyText s) = Some s"
| "py_as_text _ = None"

record py_payload =
  pyl_tag :: "string option"
  pyl_value :: py_value

definition py_single :: "string \<Rightarrow> string \<Rightarrow> string \<Rightarrow> py_payload" where
  "py_single tag field_name text =
     \<lparr>pyl_tag = Some tag, pyl_value = PyRec [PyField (Some field_name) (PyText text)]\<rparr>"

record py_meta =
  pym_from :: address
  pym_to :: "address option"
  pym_thread :: string
  pym_provenance :: int

record py_envelope =
  pye_meta :: py_meta
  pye_payload :: py_payload

section \<open>The envelope codec\<close>

definition PY_ENVELOPE_NS :: string where
  "PY_ENVELOPE_NS = ''https://xml-pipeline.org/ns/envelope/v1''"

text \<open>\<open>quoteattr(None)\<close> fails on the attribute \<open>replace\<close>.\<close>

definition py_quoteattr :: "string option \<Rightarrow> (string, exn) result" where
  "py_quoteattr n = (case n of None \<Rightarrow> Err AttributeError | Some s \<Rightarrow> Ok (sax_quoteattr s))"

definition py_v :: "string \<Rightarrow> string \<Rightarrow> string" where
  "py_v kind inner = ''<v k='' @ [CHR 0x22] @ kind @ [CHR 0x22] @ ''>'' @ inner @ ''</v>''"

fun py_encode_value :: "pystd \<Rightarrow> py_value \<Rightarrow> (string, exn) result"
and py_encode_fields :: "pystd \<Rightarrow> py_field list \<Rightarrow> (string, exn) result"
and py_encode_items :: "pystd \<Rightarrow> py_value list \<Rightarrow> (string, exn) result" where
  "py_encode_value E (PyRec fs) = bindR (py_encode_fields E fs) (\<lambda>inner. Ok (py_v ''rec'' inner))"
| "py_encode_value E (PySeq vs) = bindR (py_encode_items E vs) (\<lambda>inner. Ok (py_v ''seq'' inner))"
| "py_encode_value E (PyText s) = Ok (py_v ''text'' (sax_escape s))"
| "py_encode_value E (PyUint n) = Ok (py_v ''uint'' (py_str_int n))"
| "py_encode_value E (PySint n) = Ok (py_v ''sint'' (py_str_int n))"
| "py_encode_value E (PyReal x) = Ok (py_v ''real'' (py_repr E x))"
| "py_encode_value E (PyBoolean b) = Ok (py_v ''bool'' (if b then ''true'' else ''false''))"
| "py_encode_value E (PyBlob bs) = Ok (py_v ''blob'' (concat (map (\<lambda>b. hex_pad 2 (unat b)) bs)))"
| "py_encode_value E PyNil = Ok (''<v k='' @ [CHR 0x22] @ ''nil'' @ [CHR 0x22] @ ''/>'')"
| "py_encode_fields E [] = Ok []"
| "py_encode_fields E (PyField n v # fs) =
     bindR (py_quoteattr n) (\<lambda>q.
     bindR (py_encode_value E v) (\<lambda>x.
     bindR (py_encode_fields E fs) (\<lambda>r. Ok (''<f n='' @ q @ ''>'' @ x @ ''</f>'' @ r))))"
| "py_encode_items E [] = Ok []"
| "py_encode_items E (v # vs) =
     bindR (py_encode_value E v) (\<lambda>x. bindR (py_encode_items E vs) (\<lambda>r. Ok (x @ r)))"

definition py_tagged :: "string \<Rightarrow> string \<Rightarrow> string" where
  "py_tagged tag text = ''<'' @ tag @ ''>'' @ text @ ''</'' @ tag @ ''>''"

definition py_hex128 :: "int \<Rightarrow> string" where
  "py_hex128 n = hex_pad 16 (nat (take_bit 64 (drop_bit 64 n))) @ hex_pad 16 (nat (take_bit 64 n))"

definition py_encode_envelope :: "pystd \<Rightarrow> py_envelope \<Rightarrow> (u8 list, exn) result" where
  "py_encode_envelope E env =
     (let m = pye_meta env; pl = pye_payload env;
          head = ''<message xmlns='' @ [CHR 0x22] @ PY_ENVELOPE_NS @ [CHR 0x22] @ ''><meta>'' @
            py_tagged ''from'' (sax_escape (py_str (pym_from m))) @
            (case pym_to m of Some to \<Rightarrow> py_tagged ''to'' (sax_escape (py_str to)) | None \<Rightarrow> []) @
            py_tagged ''thread'' (sax_escape (pym_thread m)) @
            (if pym_provenance m \<noteq> 0 then py_tagged ''provenance'' (py_hex128 (pym_provenance m)) else []) @ ''</meta>''
      in bindR (py_quoteattr (pyl_tag pl)) (\<lambda>q.
         bindR (py_encode_value E (pyl_value pl)) (\<lambda>v.
         Ok (as_bytes (head @ ''<payload tag='' @ q @ ''>'' @ v @ ''</payload></message>'')))))"

fun traverse :: "('a \<Rightarrow> ('b, 'e) result) \<Rightarrow> 'a list \<Rightarrow> ('b list, 'e) result" where
  "traverse f [] = Ok []"
| "traverse f (x # xs) = bindR (f x) (\<lambda>y. bindR (traverse f xs) (\<lambda>ys. Ok (y # ys)))"

lemma traverse_cong [fundef_cong]:
  "xs = ys \<Longrightarrow> (\<And>x. x \<in> set ys \<Longrightarrow> f x = g x) \<Longrightarrow> traverse f xs = traverse g ys"
  by (induction ys arbitrary: xs) auto

definition py_local :: "element \<Rightarrow> string" where
  "py_local el = last (split_on CHR ''}'' (el_tag el))"

definition py_find :: "string \<Rightarrow> element \<Rightarrow> element option" where
  "py_find name el = find (\<lambda>c. py_local c = name) (el_kids el)"

definition text_or :: "string \<Rightarrow> element \<Rightarrow> string" where
  "text_or d el = (case el_text el of None \<Rightarrow> d | Some t \<Rightarrow> if t = [] then d else t)"

lemma kid_size: "c \<in> set (el_kids el) \<Longrightarrow> size c < size el"
  by (cases el) (auto dest: size_list_estimation' [where f = size and x = c] intro: order.refl simp: less_Suc_eq_le)

lemma py_find_kid: "py_find name el = Some c \<Longrightarrow> c \<in> set (el_kids el)"
  by (auto simp: py_find_def find_Some_iff)

function py_decode_value :: "pystd \<Rightarrow> element \<Rightarrow> (py_value, exn) result" where
  "py_decode_value E el =
     (case map_of (el_attrs el) ''k'' of
        None \<Rightarrow> Err (value_error ''unknown value kind: None'')
      | Some k \<Rightarrow>
          if k = ''rec'' then
            bindR (traverse (\<lambda>f. bindR (case py_find ''v'' f of Some c \<Rightarrow> py_decode_value E c | None \<Rightarrow> Ok PyNil)
                     (\<lambda>v. Ok (PyField (map_of (el_attrs f) ''n'') v)))
                   (filter (\<lambda>f. py_local f = ''f'') (el_kids el))) (\<lambda>fs. Ok (PyRec fs))
          else if k = ''seq'' then
            bindR (traverse (py_decode_value E) (filter (\<lambda>c. py_local c = ''v'') (el_kids el))) (\<lambda>vs. Ok (PySeq vs))
          else if k = ''text'' then Ok (PyText (text_or [] el))
          else if k = ''uint'' then bindR (py_int 10 (text_or ''0'' el)) (\<lambda>n. Ok (PyUint n))
          else if k = ''sint'' then bindR (py_int 10 (text_or ''0'' el)) (\<lambda>n. Ok (PySint n))
          else if k = ''real'' then
            bindR (ok_or (value_error ''could not convert string to float'') (py_float E (text_or ''0'' el))) (\<lambda>x. Ok (PyReal x))
          else if k = ''bool'' then Ok (PyBoolean (text_or [] el = ''true''))
          else if k = ''blob'' then bindR (py_fromhex (text_or [] el)) (\<lambda>bs. Ok (PyBlob bs))
          else if k = ''nil'' then Ok PyNil
          else Err (ValueError (Msg ''unknown value kind: {k}'' [k])))"
  by pat_completeness auto
termination py_decode_value
  by (relation "measure (\<lambda>(E, el). size el)") (auto dest!: py_find_kid dest: kid_size less_trans)

declare py_decode_value.simps [simp del]

record py_meta_fields =
  pmf_from :: "address option"
  pmf_to :: "address option"
  pmf_thread :: "string option"
  pmf_prov :: int

definition py_parse_text :: "string option \<Rightarrow> (address, exn) result" where
  "py_parse_text t = (case t of None \<Rightarrow> Err AttributeError | Some s \<Rightarrow> py_parse s)"

fun py_meta_loop :: "py_meta_fields \<Rightarrow> element list \<Rightarrow> (py_meta_fields, exn) result" where
  "py_meta_loop mf [] = Ok mf"
| "py_meta_loop mf (c # cs) =
     (let t = py_local c in
      if t = ''from'' then bindR (py_parse_text (el_text c)) (\<lambda>a. py_meta_loop (mf\<lparr>pmf_from := Some a\<rparr>) cs)
      else if t = ''to'' then bindR (py_parse_text (el_text c)) (\<lambda>a. py_meta_loop (mf\<lparr>pmf_to := Some a\<rparr>) cs)
      else if t = ''thread'' then py_meta_loop (mf\<lparr>pmf_thread := el_text c\<rparr>) cs
      else if t = ''provenance'' then
        (let h = py_strip (text_or [] c) in
         bindR (py_int 16 (take 16 h)) (\<lambda>hi. bindR (py_int 16 (drop 16 h)) (\<lambda>lo.
         py_meta_loop (mf\<lparr>pmf_prov := or (push_bit 64 hi) lo\<rparr>) cs)))
      else py_meta_loop mf cs)"

definition py_decode_envelope :: "pystd \<Rightarrow> u8 list \<Rightarrow> (py_envelope, exn) result" where
  "py_decode_envelope E raw =
     bindR (ok_or ParseError (et_fromstring E raw)) (\<lambda>root.
     if py_local root \<noteq> ''message'' then Err (value_error ''not a <message>'')
     else bindR (ok_or StopIteration (py_find ''meta'' root)) (\<lambda>meta_el.
          bindR (py_meta_loop \<lparr>pmf_from = None, pmf_to = None, pmf_thread = None, pmf_prov = 0\<rparr> (el_kids meta_el)) (\<lambda>mf.
          bindR (ok_or StopIteration (py_find ''payload'' root)) (\<lambda>payload_el.
          bindR (case py_find ''v'' payload_el of Some v \<Rightarrow> py_decode_value E v | None \<Rightarrow> Ok PyNil) (\<lambda>val.
          bindR (ok_or (value_error ''missing required meta'') (pmf_from mf)) (\<lambda>frm.
          bindR (ok_or (value_error ''missing required meta'') (pmf_thread mf)) (\<lambda>thread.
          Ok \<lparr>pye_meta = \<lparr>pym_from = frm, pym_to = pmf_to mf, pym_thread = thread, pym_provenance = pmf_prov mf\<rparr>,
              pye_payload = \<lparr>pyl_tag = map_of (el_attrs payload_el) ''tag'', pyl_value = val\<rparr>\<rparr>)))))))"

section \<open>Frames\<close>

definition PY_NONCE_LEN :: nat where "PY_NONCE_LEN = 24"
definition PY_VERSION :: u8 where "PY_VERSION = 1"
definition PY_AUTH_PSK :: u8 where "PY_AUTH_PSK = 0"

text \<open>\<open>struct.pack\<close> refuses a length that does not fit 16 bits.\<close>

definition py_encode_header :: "string \<Rightarrow> (u8 list, exn) result" where
  "py_encode_header sender =
     (let s = as_bytes sender in
      if length s < 65536 then Ok ([PY_VERSION, PY_AUTH_PSK] @ to_be_bytes (word_of_nat (length s)) @ s)
      else Err StructError)"

definition py_seal ::
    "pystd \<Rightarrow> aead \<Rightarrow> u8 list \<Rightarrow> py_envelope \<Rightarrow> string \<Rightarrow> u8 list \<Rightarrow> (u8 list, exn) result" where
  "py_seal E A nonce env sender key =
     (if length key \<noteq> 32 then Err (value_error ''key must be 32 bytes'')
      else bindR (py_encode_header sender) (\<lambda>header.
           bindR (py_encode_envelope E env) (\<lambda>plaintext.
           bindR (ok_or CryptoError (aead_encrypt A key nonce plaintext header)) (\<lambda>ct.
           Ok (header @ nonce @ ct)))))"

record py_peer =
  pyp_namespace :: string
  pyp_endpoint :: string
  pyp_key :: "u8 list"
  pyp_inbound_provenance :: int

definition py_directory_new :: "string \<rightharpoonup> py_peer" where
  "py_directory_new = Map.empty"

definition py_directory_register :: "(string \<rightharpoonup> py_peer) \<Rightarrow> py_peer \<Rightarrow> (string \<rightharpoonup> py_peer)" where
  "py_directory_register d p = d(pyp_namespace p \<mapsto> p)"

definition py_directory_get :: "(string \<rightharpoonup> py_peer) \<Rightarrow> string \<Rightarrow> py_peer option" where
  "py_directory_get d ns = d ns"

definition py_is_remote :: "(string \<rightharpoonup> py_peer) \<Rightarrow> string \<Rightarrow> bool" where
  "py_is_remote d ns \<longleftrightarrow> ns \<in> dom d"

interpretation py_peers: keyed_registry py_directory_get py_directory_register pyp_namespace "\<lambda>p. p"
  by unfold_locales (simp add: py_directory_get_def py_directory_register_def)

definition py_open_frame ::
    "pystd \<Rightarrow> aead \<Rightarrow> u8 list \<Rightarrow> (string \<rightharpoonup> py_peer) \<Rightarrow> (py_envelope \<times> string, exn) result" where
  "py_open_frame E A frame d =
     (if length frame < 4 then Err (value_error ''malformed frame'')
      else if frame ! 0 \<noteq> PY_VERSION then Err (ValueError (Msg ''unsupported protocol version: {version}'' [show_nat (unat (frame ! 0))]))
      else if frame ! 1 \<noteq> PY_AUTH_PSK then Err (ValueError (Msg ''unsupported auth method: {auth}'' [show_nat (unat (frame ! 1))]))
      else
        (let sender_len = unat (from_be_bytes (frame ! 2) (frame ! 3)); stop = 4 + sender_len in
         if length frame < stop then Err (value_error ''malformed frame'')
         else bindR (ok_or (value_error ''invalid utf-8'') (from_utf8 (drop 4 (take stop frame)))) (\<lambda>sender.
              bindR (ok_or (ValueError (Msg ''unknown peer: {sender}'' [sender])) (py_directory_get d sender)) (\<lambda>peer.
              (let header = take stop frame; body = drop stop frame in
               if length body < PY_NONCE_LEN then Err (value_error ''malformed frame'')
               else bindR (ok_or (value_error ''decrypt/authentication failed'')
                      (aead_decrypt A (pyp_key peer) (take PY_NONCE_LEN body) (drop PY_NONCE_LEN body) header)) (\<lambda>plaintext.
                    bindR (py_decode_envelope E plaintext) (\<lambda>env. Ok (env, sender))))))))"

section \<open>The server\<close>

definition py_reroot_origin :: "address \<Rightarrow> string \<Rightarrow> address" where
  "py_reroot_origin frm ns =
     (let rest = (if length (segments frm) \<ge> 2 then drop 1 (segments frm) else segments frm)
      in \<lparr>segments = \<lparr>seg_name = ns, seg_key = None\<rparr> # rest\<rparr>)"

record py_server =
  pys_node :: string
  pys_directory :: "string \<rightharpoonup> py_peer"
  pys_authorize :: "(address \<Rightarrow> address \<Rightarrow> bool) option"

definition py_send ::
    "pystd \<Rightarrow> aead \<Rightarrow> (string \<Rightarrow> u8 list \<Rightarrow> 't \<Rightarrow> (unit, exn) result \<times> 't) \<Rightarrow> py_server \<Rightarrow> u8 list \<Rightarrow> py_envelope
     \<Rightarrow> 't \<Rightarrow> (unit, exn) result \<times> 't" where
  "py_send E A transport srv nonce env t =
     (case pym_to (pye_meta env) of
        None \<Rightarrow> (Err (value_error ''envelope has no destination address''), t)
      | Some to \<Rightarrow>
          (case segments to of
             [] \<Rightarrow> (Err (value_error ''envelope has no destination address''), t)
           | s # _ \<Rightarrow>
               (case py_directory_get (pys_directory srv) (seg_name s) of
                  None \<Rightarrow> (Err (ValueError (Msg ''not a remote node: {node}'' [seg_name s])), t)
                | Some p \<Rightarrow>
                    (case py_seal E A nonce env (pys_node srv) (pyp_key p) of
                       Ok frame \<Rightarrow> transport (pyp_endpoint p) frame t
                     | Err e \<Rightarrow> (Err e, t)
                     | Panic \<Rightarrow> (Panic, t)))))"

definition py_stamp :: "py_server \<Rightarrow> string \<Rightarrow> py_envelope \<Rightarrow> py_envelope" where
  "py_stamp srv sender env =
     (let m = pye_meta env;
          prov = (case py_directory_get (pys_directory srv) sender of
             Some p \<Rightarrow> if pyp_inbound_provenance p \<noteq> 0 then or (pym_provenance m) (pyp_inbound_provenance p)
                       else pym_provenance m
           | None \<Rightarrow> pym_provenance m)
      in env\<lparr>pye_meta := m\<lparr>pym_from := py_reroot_origin (pym_from m) sender, pym_provenance := prov\<rparr>\<rparr>)"

definition py_authorized :: "py_server \<Rightarrow> py_envelope \<Rightarrow> bool" where
  "py_authorized srv env =
     (case (pys_authorize srv, pym_to (pye_meta env)) of
        (Some f, Some to) \<Rightarrow> f (pym_from (pye_meta env)) to
      | _ \<Rightarrow> True)"

definition py_unauthorized :: "py_envelope \<Rightarrow> exn" where
  "py_unauthorized env =
     ValueError (Msg ''unauthorized: {env.meta.from_} -> {env.meta.to}''
       [py_str (pym_from (pye_meta env)), (case pym_to (pye_meta env) of Some to \<Rightarrow> py_str to | None \<Rightarrow> ''None'')])"

definition py_strip_node :: "py_server \<Rightarrow> py_envelope \<Rightarrow> py_envelope" where
  "py_strip_node srv env =
     (let m = pye_meta env in
      case pym_to m of
        None \<Rightarrow> env
      | Some to \<Rightarrow>
          if length (segments to) > 1 \<and> seg_name (segments to ! 0) = pys_node srv
          then env\<lparr>pye_meta := m\<lparr>pym_to := Some \<lparr>segments = drop 1 (segments to)\<rparr>\<rparr>\<rparr> else env)"

definition py_receive ::
    "pystd \<Rightarrow> aead \<Rightarrow> (py_envelope \<Rightarrow> 'd \<Rightarrow> (unit, exn) result \<times> 'd) \<Rightarrow> py_server \<Rightarrow> u8 list \<Rightarrow> 'd
     \<Rightarrow> (unit, exn) result \<times> 'd" where
  "py_receive E A deliver srv frame d =
     (case py_open_frame E A frame (pys_directory srv) of
        Err e \<Rightarrow> (Err e, d)
      | Panic \<Rightarrow> (Panic, d)
      | Ok (env0, sender) \<Rightarrow>
          (let env = py_stamp srv sender env0 in
           if \<not> py_authorized srv env then (Err (py_unauthorized env), d)
           else deliver (py_strip_node srv env) d))"

end
