(* ===== verification/Python_Laws.thy ===== *)
theory Python_Laws
  imports Python_Client Codec_Laws "HOL-Library.Sublist"
begin

text \<open>
  The Python mirror against the Rust original: the address parsers and accessors, the bytes of an
  envelope and of a frame, and what the two servers make of a frame.
\<close>

section \<open>White space\<close>

text \<open>Printable ASCII text, blanks included.\<close>

definition plain_text :: "string \<Rightarrow> bool" where
  "plain_text s \<longleftrightarrow> list_all (\<lambda>c. 32 \<le> code c \<and> code c < 127) s"

lemma printable_plain: "printable s \<Longrightarrow> plain_text s"
  by (auto simp: printable_def plain_text_def list_all_iff)

lemma trim_start_suffix: "suffix (trim_start s) s"
  by (induction s rule: trim_start.induct) (auto intro: suffix_ConsI)

lemma trim_end_rev_suffix: "suffix (trim_end_rev s) s"
  by (induction s rule: trim_end_rev.induct) (auto intro: suffix_ConsI)

lemma py_lstrip_trim: "list_all (\<lambda>c. \<not> py_separator c) s \<Longrightarrow> py_lstrip s = trim_start s"
  using trim_start_suffix [of s]
  by (subst py_lstrip.simps) (auto split: list.split simp: list_all_iff suffix_def)

lemma py_rstrip_trim: "list_all (\<lambda>c. \<not> py_separator c) s \<Longrightarrow> py_rstrip_rev s = trim_end_rev s"
  using trim_end_rev_suffix [of s]
  by (subst py_rstrip_rev.simps) (auto split: list.split simp: list_all_iff suffix_def)

lemma plain_no_separator: "plain_text s \<Longrightarrow> list_all (\<lambda>c. \<not> py_separator c) s"
  by (auto simp: plain_text_def py_separator_def list_all_iff)

text \<open>On text without the four separators the two languages strip alike.\<close>

lemma py_strip_trim:
  assumes "list_all (\<lambda>c. \<not> py_separator c) s"
  shows "py_strip s = trim s"
proof -
  from trim_start_suffix obtain p where "s = p @ trim_start s"
    unfolding suffix_def by blast
  with assms have "list_all (\<lambda>c. \<not> py_separator c) (rev (trim_start s))"
    by (metis list_all_append list_all_rev)
  then show ?thesis
    by (simp add: py_strip_def trim_def py_lstrip_trim assms py_rstrip_trim)
qed

section \<open>Addresses\<close>

definition no_brackets :: "string \<Rightarrow> bool" where
  "no_brackets k \<longleftrightarrow> CHR ''['' \<notin> set k \<and> CHR '']'' \<notin> set k"

definition flat_keys :: "segment list \<Rightarrow> bool" where
  "flat_keys ss \<longleftrightarrow> list_all (\<lambda>s. pred_option no_brackets (seg_key s)) ss"

lemma py_str_display: "py_str a = address_display a"
  by (simp add: py_str_def address_display_def py_seg_str_def [abs_def] seg_display_def [abs_def] option.case_distrib
      cong: option.case_cong)

lemma loop_name:
  "list_all (\<lambda>c. c \<noteq> CHR ''.'' \<and> c \<noteq> CHR ''['' \<and> c \<noteq> CHR '']'') n \<Longrightarrow>
   py_parse_loop (n @ rest) name key False segs = py_parse_loop rest (name @ n) key False segs"
  by (induction n arbitrary: name) auto

lemma loop_key:
  "no_brackets k \<Longrightarrow> py_parse_loop (k @ rest) name (Some key) True segs = py_parse_loop rest name (Some (key @ k)) True segs"
  by (induction k arbitrary: key) (auto simp: no_brackets_def)

lemma scan_name:
  "CHR ''['' \<notin> set n \<Longrightarrow> seg_scan 0 n = Some d \<Longrightarrow>
   list_all (\<lambda>c. c \<noteq> CHR ''.'' \<and> c \<noteq> CHR ''['' \<and> c \<noteq> CHR '']'') n"
  by (induction n) (auto split: if_splits)

lemma wf_segment_name:
  "wf_segment s \<Longrightarrow> list_all (\<lambda>c. c \<noteq> CHR ''.'' \<and> c \<noteq> CHR ''['' \<and> c \<noteq> CHR '']'') (seg_name s)"
  using scan_name [of "seg_name s"]
  by (auto simp: wf_segment_def seg_display_def seg_scan_append bind_eq_Some_conv)

lemma seg_eta [simp]: "\<lparr>seg_name = seg_name s, seg_key = seg_key s\<rparr> = s"
  by simp

lemma loop_segment:
  assumes "wf_segment s" "pred_option no_brackets (seg_key s)"
  shows "py_parse_loop (seg_display s @ rest) [] None False segs = py_parse_loop rest (seg_name s) (seg_key s) False segs"
proof (cases "seg_key s")
  case None
  then show ?thesis
    by (simp add: seg_display_def loop_name [OF wf_segment_name [OF assms(1)]])
next
  case (Some k)
  with assms(2) have "no_brackets k" by simp
  with Some show ?thesis
    by (simp add: seg_display_def loop_name [OF wf_segment_name [OF assms(1)]] loop_key)
qed

lemma loop_segments:
  "ss \<noteq> [] \<Longrightarrow> list_all wf_segment ss \<Longrightarrow> flat_keys ss \<Longrightarrow>
   py_parse_loop (join_with ''.'' (map seg_display ss) @ rest) [] None False segs =
     py_parse_loop rest (seg_name (last ss)) (seg_key (last ss)) False (segs @ butlast ss)"
proof (induction ss arbitrary: segs)
  case (Cons s ss)
  have s: "wf_segment s" "pred_option no_brackets (seg_key s)"
    using Cons.prems(2,3) by (simp_all add: flat_keys_def)
  show ?case
  proof (cases ss)
    case Nil
    then show ?thesis by (simp add: loop_segment [OF s])
  next
    case (Cons s' ss')
    have "seg_name s \<noteq> []"
      using s(1) by (simp add: wf_segment_def)
    then have "py_parse_loop (join_with ''.'' (map seg_display (s # ss)) @ rest) [] None False segs =
        py_parse_loop (join_with ''.'' (map seg_display ss) @ rest) [] None False (segs @ [s])"
      by (simp add: Cons loop_segment [OF s])
    with Cons.IH [of "segs @ [s]"] Cons.prems Cons show ?thesis
      by (simp add: flat_keys_def)
  qed
qed simp

text \<open>A key that Python reads has no brackets.\<close>

lemma loop_flat:
  "py_parse_loop cs name key b segs = Ok (name', key', b', segs') \<Longrightarrow> flat_keys segs \<Longrightarrow>
   pred_option no_brackets key \<Longrightarrow> flat_keys segs' \<and> pred_option no_brackets key'"
proof (induction cs name key b segs rule: py_parse_loop.induct)
  case (2 ch rest name key b segs)
  from "2.prems"(2,3) have more: "flat_keys (segs @ [\<lparr>seg_name = name, seg_key = key\<rparr>])"
    by (simp add: flat_keys_def)
  have key: "ch \<noteq> CHR ''['' \<Longrightarrow> ch \<noteq> CHR '']'' \<Longrightarrow> pred_option no_brackets (map_option (\<lambda>k. k @ [ch]) key)"
    using "2.prems"(3) by (cases key) (simp_all add: no_brackets_def)
  have "pred_option no_brackets (Some [])"
    by (simp add: no_brackets_def)
  then show ?case
    using "2.prems" "2.IH" more key by (simp split: if_splits)
qed simp

lemma py_parse_flat: "py_parse s = Ok a \<Longrightarrow> flat_keys (segments a)"
  using loop_flat [of "py_strip s" "[]" None False "[]"]
  by (fastforce simp: py_parse_def Let_def result_iffs flat_keys_def split: if_splits)

lemma py_parse_display:
  assumes "wf_address a" "flat_keys (segments a)" "py_strip (address_display a @ t) = address_display a @ t"
    and "t = [] \<or> t = ''.''"
  shows "py_parse (address_display a @ t) = Ok a"
proof -
  let ?ss = "segments a"
  have ss: "?ss \<noteq> []" "list_all wf_segment ?ss"
    using assms(1) by (simp_all add: wf_address_def)
  have last: "seg_name (last ?ss) \<noteq> []"
    using ss by (simp add: list_all_iff wf_segment_def)
  have "address_display a \<noteq> []"
    using parse_address_display [OF assms(1)] by (auto simp: parse_address_def)
  moreover have "py_parse_loop (address_display a @ t) [] None False [] =
      (if t = [] then Ok (seg_name (last ?ss), seg_key (last ?ss), False, butlast ?ss) else Ok ([], None, False, ?ss))"
    using loop_segments [OF ss assms(2), of t "[]"] assms(4) last ss(1)
    by (auto simp: address_display_def)
  moreover have "\<lparr>segments = ?ss\<rparr> = a" by simp
  ultimately show ?thesis
    using last ss(1) by (simp add: py_parse_def assms(3) Let_def)
qed

lemma parse_loop_dot: "parse_loop whole (cs @ ''.'') d cur segs \<noteq> Ok r"
proof (induction cs arbitrary: d cur segs)
  case Nil
  then show ?case
    by (auto simp: result_iffs parse_segment_def)
next
  case (Cons c cs)
  then show ?case by (auto simp: result_iffs)
qed

lemma py_org_loop_position:
  "py_org_loop i ss = (case position (\<lambda>s. seg_key s \<noteq> None) ss of None \<Rightarrow> 0 | Some j \<Rightarrow> i + j)"
  by (induction ss arbitrary: i) (auto split: option.split)

lemma py_org_index: "py_org_idx a = organism_index a"
  by (simp add: py_org_idx_def organism_index_def py_org_loop_position split: option.split)

lemma py_accessors:
  "py_organism a = organism a" "py_namespace a = namespace a" "py_node a = node a"
  "py_instance_key a = instance_key a" "py_buffer a = buffer a"
  "segments a \<noteq> [] \<Longrightarrow> instance_address a = Ok (py_instance_address a)"
  using organism_index_less [of a]
  by (auto simp: py_organism_def organism_def py_namespace_def namespace_def py_node_def node_def py_instance_key_def
      instance_key_def py_buffer_def buffer_def py_instance_address_def instance_address_def py_org_index get_at_def Let_def)

lemma py_seg_cache_keys_filter: "filter (\<lambda>p. p \<noteq> []) (py_seg_cache_keys s) = seg_cache_keys s"
  by (auto simp: py_seg_cache_keys_def seg_cache_keys_def split: option.split)

lemma py_cache_keys_filter: "filter (\<lambda>p. p \<noteq> []) (py_cache_keys a) = cache_keys a"
  using organism_index_less [of a]
  by (auto simp: py_cache_keys_def cache_keys_def get_at_def py_org_index py_seg_cache_keys_filter)

section \<open>Values\<close>

fun py_of_value :: "payload_value \<Rightarrow> py_value" and py_of_field :: "field \<Rightarrow> py_field" where
  "py_of_value (Rec fs) = PyRec (map py_of_field fs)"
| "py_of_value (Seq vs) = PySeq (map py_of_value vs)"
| "py_of_value (Text s) = PyText s"
| "py_of_value (Uint n) = PyUint (uint n)"
| "py_of_value (Sint n) = PySint (sint n)"
| "py_of_value (Real x) = PyReal x"
| "py_of_value (Boolean b) = PyBoolean b"
| "py_of_value (Blob bs) = PyBlob bs"
| "py_of_value NilV = PyNil"
| "py_of_field (Field n v) = PyField (Some n) (py_of_value v)"

definition prov_int :: "provenance \<Rightarrow> int" where
  "prov_int p = or (push_bit 64 (uint (bits_hi p))) (uint (bits_lo p))"

definition py_of :: "envelope \<Rightarrow> py_envelope" where
  "py_of env =
     (let m = e_meta env in
      \<lparr>pye_meta = \<lparr>pym_from = m_from m, pym_to = m_to m, pym_thread = m_thread m, pym_provenance = prov_int (m_provenance m)\<rparr>,
       pye_payload = \<lparr>pyl_tag = Some (pl_tag (e_payload env)), pyl_value = py_of_value (pl_value (e_payload env))\<rparr>\<rparr>)"

lemma py_str_uint: "py_str_int (uint (n :: u64)) = show_u64 n"
  by (simp add: py_str_int_def show_u64_def)

lemma py_str_sint: "py_str_int (sint (n :: i64)) = show_i64 n"
  by (simp add: py_str_int_def show_i64_def)

lemma bit_uint_word: "bit (uint (w :: u64)) n \<longleftrightarrow> bit w n"
  using bit_imp_le_length [of w n] by (auto simp: bit_uint_iff)

lemma bit_prov_int: "bit (prov_int p) n \<longleftrightarrow> (if n < 64 then bit (bits_lo p) n else bit (bits_hi p) (n - 64))"
  using bit_imp_le_length [of "bits_lo p" n] by (auto simp: prov_int_def bit_simps bit_uint_word)

lemma prov_int_parts:
  "take_bit 64 (drop_bit 64 (prov_int p)) = uint (bits_hi p)" "take_bit 64 (prov_int p) = uint (bits_lo p)"
  using bit_imp_le_length [of "bits_hi p"] bit_imp_le_length [of "bits_lo p"]
  by (auto intro!: bit_eqI simp: bit_take_bit_iff bit_drop_bit_eq bit_prov_int bit_uint_word)

lemma prov_int_inj: "prov_int p = prov_int q \<longleftrightarrow> p = q"
proof
  assume "prov_int p = prov_int q"
  then have "uint (bits_hi p) = uint (bits_hi q)" "uint (bits_lo p) = uint (bits_lo q)"
    using prov_int_parts by metis+
  then show "p = q"
    by (cases p; cases q) (simp add: word_uint_eq_iff)
qed simp

lemma prov_int_union: "prov_int (prov_union p q) = or (prov_int p) (prov_int q)"
  by (rule bit_eqI) (simp add: bit_or_iff bit_prov_int prov_union_def)

lemma prov_int_zero: "prov_int p = 0 \<longleftrightarrow> prov_is_empty p"
proof -
  have "prov_int EMPTY = 0"
    by (simp add: prov_int_def EMPTY_def)
  with prov_int_inj [of p EMPTY] show ?thesis
    by (simp add: prov_is_empty_iff)
qed

lemma py_hex_prov: "py_hex128 (prov_int p) = prov_to_hex p"
  by (simp add: py_hex128_def prov_to_hex_def prov_int_parts del: hex_pad.simps)

section \<open>The bytes of an envelope\<close>

text \<open>
  Documented behaviour of the event writer: it writes each event as its markup, attributes with
  double quotes.
\<close>

definition attr_markup :: "string \<times> string \<Rightarrow> string" where
  "attr_markup a = '' '' @ fst a @ ''='' @ [CHR 0x22] @ snd a @ [CHR 0x22]"

fun markup :: "xml_event \<Rightarrow> string" where
  "markup (XStart n as) = ''<'' @ n @ concat (map attr_markup as) @ ''>''"
| "markup (XEmpty n as) = ''<'' @ n @ concat (map attr_markup as) @ ''/>''"
| "markup (XEnd n) = ''</'' @ n @ ''>''"
| "markup (XText s) = s"
| "markup (XMisc s) = s"

definition writer_laws :: "lib \<Rightarrow> bool" where
  "writer_laws L \<longleftrightarrow> (\<forall>e. xml_write L e = Inr (as_bytes (markup e)))"

abbreviation markups :: "xml_event list \<Rightarrow> string" where
  "markups es \<equiv> concat (map markup es)"

lemma bytes_of_markup: "writer_laws L \<Longrightarrow> bytes_of L es = as_bytes (markups es)"
  by (induction es) (simp_all add: bytes_of_def writer_laws_def as_bytes_def)

text \<open>Strings that neither side escapes, and values made of them.\<close>

definition unescaped :: "string \<Rightarrow> bool" where
  "unescaped s \<longleftrightarrow> no_markup s \<and> list_all (\<lambda>c. code c \<notin> {9, 10, 13}) s"

lemma unescaped_markup: "unescaped s \<Longrightarrow> no_markup s"
  by (simp add: unescaped_def)

fun plain_value :: "lib \<Rightarrow> pystd \<Rightarrow> payload_value \<Rightarrow> bool" and plain_field :: "lib \<Rightarrow> pystd \<Rightarrow> field \<Rightarrow> bool" where
  "plain_value L E (Rec fs) = list_all (plain_field L E) fs"
| "plain_value L E (Seq vs) = list_all (plain_value L E) vs"
| "plain_value L E (Text s) = no_markup s"
| "plain_value L E (Real x) = (py_repr E x = f64_show L x \<and> no_markup (f64_show L x))"
| "plain_value L E v = True"
| "plain_field L E (Field n v) = (unescaped n \<and> plain_value L E v)"

definition plain_envelope :: "lib \<Rightarrow> pystd \<Rightarrow> envelope \<Rightarrow> bool" where
  "plain_envelope L E env \<longleftrightarrow> no_markup (address_display (m_from (e_meta env))) \<and>
     pred_option (\<lambda>a. no_markup (address_display a)) (m_to (e_meta env)) \<and> no_markup (m_thread (e_meta env)) \<and>
     unescaped (pl_tag (e_payload env)) \<and> plain_value L E (pl_value (e_payload env))"

lemma sax_escape_plain: "no_markup s \<Longrightarrow> sax_escape s = s"
  by (induction s) (simp_all add: sax_escape_def no_markup_def xml_sax_char_def)

lemma sax_quoteattr_plain:
  assumes "unescaped s"
  shows "sax_quoteattr s = [CHR 0x22] @ s @ [CHR 0x22]"
proof -
  have "concat (map (\<lambda>c. if code c = 10 then ''&#10;'' else if code c = 13 then ''&#13;''
      else if code c = 9 then ''&#9;'' else xml_sax_char c) s) = s \<and> CHR 0x22 \<notin> set s"
    using assms by (induction s) (auto simp: unescaped_def no_markup_def xml_sax_char_def)
  then show ?thesis by (simp add: sax_quoteattr_def)
qed

text \<open>The texts of numbers and labels need no escaping.\<close>

lemma no_markup_append [simp]: "no_markup (s @ t) \<longleftrightarrow> no_markup s \<and> no_markup t"
  by (auto simp: no_markup_def)

lemma no_markup_Cons: "no_markup (c # s) \<longleftrightarrow> c \<notin> {CHR ''<'', CHR ''>'', CHR ''&'', CHR 0x27, CHR 0x22} \<and> no_markup s"
  by (simp add: no_markup_def)

lemma no_markup_Nil: "no_markup []"
  by (simp add: no_markup_def)

lemma no_markup_digit: "d < 16 \<Longrightarrow> no_markup [digit_char d]"
proof -
  assume "d < 16"
  then have "48 \<le> code (digit_char d) \<and> code (digit_char d) \<noteq> 60 \<and> code (digit_char d) \<noteq> 62"
    by (simp add: code_digit_char)
  then show ?thesis
    by (auto simp: no_markup_def code_def)
qed

lemma no_markup_show_nat: "no_markup (show_nat n)"
proof (induction n rule: show_nat.induct)
  case (1 n)
  then show ?case
    by (cases "n < 10") (simp_all add: show_nat.simps [of n] no_markup_digit)
qed

lemma no_markup_hex_pad: "no_markup (hex_pad n v)"
proof (induction n arbitrary: v)
  case 0
  show ?case by (simp add: no_markup_Nil)
qed (simp add: no_markup_digit)

lemma no_markup_to_hex: "no_markup (to_hex bs)"
  by (induction bs) (simp_all add: no_markup_hex_pad no_markup_Nil del: hex_pad.simps)

lemma no_markup_printed: "no_markup (show_u64 n)" "no_markup (show_i64 i)" "no_markup (to_hex bs)" "no_markup (prov_to_hex p)"
  "no_markup ''true''" "no_markup ''false''"
  by (simp_all add: show_u64_def show_i64_def no_markup_show_nat no_markup_to_hex prov_to_hex_def no_markup_hex_pad
      no_markup_Cons no_markup_Nil del: hex_pad.simps)

lemma escape_id: "escape_laws L \<Longrightarrow> no_markup s \<Longrightarrow> xml_escape L s = s"
  by (simp add: escape_laws_def)

lemma no_markup_kinds [simp]:
  "no_markup ''rec''" "no_markup ''seq''" "no_markup ''text''" "no_markup ''uint''" "no_markup ''sint''"
  "no_markup ''real''" "no_markup ''bool''" "no_markup ''blob''" "no_markup ''nil''"
  by (simp_all add: no_markup_def)

lemma markup_scalar:
  "escape_laws L \<Longrightarrow> no_markup k \<Longrightarrow> no_markup t \<Longrightarrow> markups (scalar_events L k t) = py_v k t"
  by (simp add: scalar_events_def escape_id attr_markup_def py_v_def)

lemma markup_value:
  assumes "escape_laws L"
  shows "plain_value L E v \<Longrightarrow> py_encode_value E (py_of_value v) = Ok (markups (value_events L v))"
    and "list_all (plain_field L E) fs \<Longrightarrow> py_encode_fields E (map py_of_field fs) = Ok (markups (fields_events L fs))"
    and "list_all (plain_value L E) vs \<Longrightarrow> py_encode_items E (map py_of_value vs) = Ok (markups (items_events L vs))"
  using assms
proof (induction L v and L fs and L vs rule: value_events_fields_events_items_events.induct)
  case (8 L bs)
  then show ?case
    by (simp add: markup_scalar no_markup_printed) (simp add: to_hex_def)
qed (simp_all add: markup_scalar no_markup_printed sax_escape_plain py_str_uint py_str_sint escape_id
    attr_markup_def py_v_def sax_quoteattr_plain py_quoteattr_def unescaped_markup)

lemma markup_text:
  "escape_laws L \<Longrightarrow> no_markup t \<Longrightarrow> markups (text_events L tag t) = py_tagged tag (sax_escape t)"
  by (simp add: text_events_def escape_id sax_escape_plain py_tagged_def)

lemma py_envelope_bytes:
  assumes "writer_laws L" "escape_laws L" "plain_envelope L E env"
  shows "py_encode_envelope E (py_of env) = Ok (bytes_of L (envelope_events L env))"
proof -
  have ns: "xml_escape L ENVELOPE_NS = PY_ENVELOPE_NS"
    using assms(2) by (simp add: ENVELOPE_NS_def PY_ENVELOPE_NS_def escape_id no_markup_def)
  have tag: "unescaped (pl_tag (e_payload env))"
    and val: "py_encode_value E (py_of_value (pl_value (e_payload env))) = Ok (markups (value_events L (pl_value (e_payload env))))"
    using assms(3) markup_value(1) [OF assms(2)] by (simp_all add: plain_envelope_def)
  show ?thesis
    using assms(3) tag unescaped_markup [OF tag]
    by (cases "m_to (e_meta env)")
      (simp_all add: bytes_of_markup [OF assms(1)] envelope_events_def meta_events_def ns py_encode_envelope_def py_of_def
        Let_def py_quoteattr_def sax_quoteattr_plain val markup_text [OF assms(2)] plain_envelope_def py_str_display
        prov_int_zero py_hex_prov no_markup_printed sax_escape_plain escape_id [OF assms(2)] attr_markup_def py_tagged_def)
qed

section \<open>The bytes of a frame\<close>

lemma writer_laws_total: "writer_laws L \<Longrightarrow> total_writer L"
  by (simp add: writer_laws_def total_writer_def)

lemma py_encode_header_eq: "length sender < 65536 \<Longrightarrow> py_encode_header sender = Ok (encode_header sender)"
  by (simp add: py_encode_header_def encode_header_def PY_VERSION_def PY_AUTH_PSK_def VERSION_def AUTH_PSK_def)

lemma py_seal_eq:
  assumes "writer_laws L" "escape_laws L" "plain_envelope L E env" "length sender < 65536" "key_ok key"
  shows "py_seal E A nonce (py_of env) sender key = Ok frame \<longleftrightarrow> seal L A (Some nonce) env sender key = Ok frame"
  using assms(4,5) py_envelope_bytes [OF assms(1-3)]
  by (simp add: py_seal_def seal_def py_encode_header_eq encode_envelope_total [OF writer_laws_total [OF assms(1)]]
      key_ok_def Let_def result_iffs)

end
