(* ===== verification/Python_Reads.thy ===== *)
theory Python_Reads
  imports Python_Laws
begin

text \<open>
  The Python client reads what the Rust side writes: an envelope is written as a document, the
  tree the standard library's parser shows of it decodes to the same envelope, and the two
  federation servers admit the same frames and deliver the same envelopes.
\<close>

section \<open>The document of an envelope\<close>

text \<open>Elements with attributes, text and children, and empty-element tags.\<close>

datatype xnode = Node string "(string \<times> string) list" "string option" "xnode list" | Leaf string "(string \<times> string) list"

abbreviation escaped :: "lib \<Rightarrow> (string \<times> string) list \<Rightarrow> (string \<times> string) list" where
  "escaped L as \<equiv> map (\<lambda>(k, v). (k, xml_escape L v)) as"

fun tree_events :: "lib \<Rightarrow> xnode \<Rightarrow> xml_event list" where
  "tree_events L (Node n as t ks) = XStart n (escaped L as) # (case t of None \<Rightarrow> [] | Some s \<Rightarrow> [XText (xml_escape L s)]) @
     concat (map (tree_events L) ks) @ [XEnd n]"
| "tree_events L (Leaf n as) = [XEmpty n (escaped L as)]"

text \<open>
  What \<open>ElementTree\<close> shows of it: names in the default namespace, unescaped values, no text for an
  empty one.
\<close>

definition in_ns :: "string \<Rightarrow> string \<Rightarrow> string" where
  "in_ns ns n = ''{'' @ ns @ ''}'' @ n"

definition shown_text :: "string option \<Rightarrow> string option" where
  "shown_text t = (if t = Some [] then None else t)"

fun et_view :: "string \<Rightarrow> xnode \<Rightarrow> element" where
  "et_view ns (Node n as t ks) = Element (in_ns ns n) as (shown_text t) (map (et_view ns) ks)"
| "et_view ns (Leaf n as) = Element (in_ns ns n) as None []"

definition attrs_ok :: "(string \<times> string) list \<Rightarrow> bool" where
  "attrs_ok as \<longleftrightarrow> distinct (map fst as) \<and> list_all (\<lambda>(k, v). xml_name k \<and> k \<noteq> ''xmlns'' \<and> plain_text v) as"

fun tree_ok :: "xnode \<Rightarrow> bool" where
  "tree_ok (Node n as t ks) \<longleftrightarrow> xml_name n \<and> attrs_ok as \<and> pred_option plain_text t \<and> list_all tree_ok ks"
| "tree_ok (Leaf n as) \<longleftrightarrow> xml_name n \<and> attrs_ok as"

text \<open>
  Documented behaviour of the parser on what the event writer writes for a document of printable
  text in the envelope's namespace; and \<open>float\<close> reads the number texts that Rust prints.
\<close>

definition et_laws :: "lib \<Rightarrow> pystd \<Rightarrow> bool" where
  "et_laws L E \<longleftrightarrow> (\<forall>n as t ks. tree_ok (Node n as t ks) \<longrightarrow>
     et_fromstring E (bytes_of L (tree_events L (Node n ((''xmlns'', ENVELOPE_NS) # as) t ks))) =
       Some (et_view ENVELOPE_NS (Node n as t ks)))"

definition float_laws :: "lib \<Rightarrow> pystd \<Rightarrow> f64 \<Rightarrow> bool" where
  "float_laws L E x \<longleftrightarrow> f64_show L x \<noteq> [] \<and> plain_text (f64_show L x) \<and> py_float E (f64_show L x) = Some x"

definition scalar_tree :: "string \<Rightarrow> string \<Rightarrow> xnode" where
  "scalar_tree k t = Node ''v'' [(''k'', k)] (Some t) []"

fun value_tree :: "lib \<Rightarrow> payload_value \<Rightarrow> xnode" and field_tree :: "lib \<Rightarrow> field \<Rightarrow> xnode" where
  "value_tree L (Rec fs) = Node ''v'' [(''k'', ''rec'')] None (map (field_tree L) fs)"
| "value_tree L (Seq vs) = Node ''v'' [(''k'', ''seq'')] None (map (value_tree L) vs)"
| "value_tree L (Text s) = scalar_tree ''text'' s"
| "value_tree L (Uint n) = scalar_tree ''uint'' (show_u64 n)"
| "value_tree L (Sint n) = scalar_tree ''sint'' (show_i64 n)"
| "value_tree L (Real x) = scalar_tree ''real'' (f64_show L x)"
| "value_tree L (Boolean b) = scalar_tree ''bool'' (if b then ''true'' else ''false'')"
| "value_tree L (Blob bs) = scalar_tree ''blob'' (to_hex bs)"
| "value_tree L NilV = Leaf ''v'' [(''k'', ''nil'')]"
| "field_tree L (Field n v) = Node ''f'' [(''n'', n)] None [value_tree L v]"

definition text_tree :: "string \<Rightarrow> string \<Rightarrow> xnode" where
  "text_tree tag t = Node tag [] (Some t) []"

definition meta_trees :: "meta \<Rightarrow> xnode list" where
  "meta_trees m = text_tree ''from'' (address_display (m_from m)) #
     (case m_to m of Some to \<Rightarrow> [text_tree ''to'' (address_display to)] | None \<Rightarrow> []) @
     text_tree ''thread'' (m_thread m) #
     (if prov_is_empty (m_provenance m) then [] else [text_tree ''provenance'' (prov_to_hex (m_provenance m))])"

definition message_trees :: "lib \<Rightarrow> envelope \<Rightarrow> xnode list" where
  "message_trees L env = [Node ''meta'' [] None (meta_trees (e_meta env)),
     Node ''payload'' [(''tag'', pl_tag (e_payload env))] None [value_tree L (pl_value (e_payload env))]]"

lemma tree_events_value:
  "tree_events L (value_tree L v) = value_events L v"
  "concat (map (tree_events L) (map (field_tree L) fs)) = fields_events L fs"
  "concat (map (tree_events L) (map (value_tree L) vs)) = items_events L vs"
  by (induction L v and L fs and L vs rule: value_events_fields_events_items_events.induct)
    (simp_all add: scalar_tree_def scalar_events_def comp_def)

lemma tree_events_envelope:
  "tree_events L (Node ''message'' [(''xmlns'', ENVELOPE_NS)] None (message_trees L env)) = envelope_events L env"
  by (cases "m_to (e_meta env)")
    (simp_all add: message_trees_def meta_trees_def text_tree_def tree_events_value envelope_events_def meta_events_def
      text_events_def)

section \<open>Python reads it\<close>

fun readable_value :: "lib \<Rightarrow> pystd \<Rightarrow> payload_value \<Rightarrow> bool" and readable_field :: "lib \<Rightarrow> pystd \<Rightarrow> field \<Rightarrow> bool" where
  "readable_value L E (Rec fs) = list_all (readable_field L E) fs"
| "readable_value L E (Seq vs) = list_all (readable_value L E) vs"
| "readable_value L E (Text s) = plain_text s"
| "readable_value L E (Real x) = float_laws L E x"
| "readable_value L E v = True"
| "readable_field L E (Field n v) = (plain_text n \<and> readable_value L E v)"

definition readable_address :: "address \<Rightarrow> bool" where
  "readable_address a \<longleftrightarrow> wf_address a \<and> flat_keys (segments a) \<and> plain_text (address_display a) \<and>
     trim (address_display a) = address_display a"

definition readable_envelope :: "lib \<Rightarrow> pystd \<Rightarrow> envelope \<Rightarrow> bool" where
  "readable_envelope L E env \<longleftrightarrow> readable_address (m_from (e_meta env)) \<and> pred_option readable_address (m_to (e_meta env)) \<and>
     m_thread (e_meta env) \<noteq> [] \<and> plain_text (m_thread (e_meta env)) \<and> plain_text (pl_tag (e_payload env)) \<and>
     readable_value L E (pl_value (e_payload env))"

lemma py_strip_printable: "printable s \<Longrightarrow> py_strip s = s"
  using py_strip_trim [OF plain_no_separator [OF printable_plain]] trim_printable by metis

lemma py_digits_plain:
  assumes "digits_value base 0 s = Some n" "s \<noteq> []" "base \<le> 16"
  shows "py_digits base s = Some n"
proof -
  have "CHR ''_'' \<notin> set s" if "digits_value base a s = Some n" for a
    using that assms(3) by (induction s arbitrary: a) (auto simp: to_digit_def code_def split: option.splits if_splits)
  with assms(1,2) show ?thesis
    by (simp add: py_digits_def split_on_no_sep)
qed

text \<open>The number texts of the wire, read by \<open>int\<close>.\<close>

lemma py_int_digits:
  assumes "digits_value base 0 s = Some n" "s \<noteq> []" "base \<le> 16" "printable s"
  shows "py_int base s = Ok (int n)" "base = 10 \<Longrightarrow> py_int base (CHR ''-'' # s) = Ok (- int n)"
proof -
  obtain c r where s: "s = c # r"
    using assms(2) by (cases s) auto
  have c: "c \<noteq> CHR ''+''" "c \<noteq> CHR ''-''"
    using assms(1,3) by (auto simp: s to_digit_def code_def split: option.splits if_splits)
  have x: "take 2 s \<noteq> ''0x'' \<and> take 2 s \<noteq> ''0X''"
    using assms(1,3) by (cases r) (auto simp: s to_digit_def code_def split: option.splits if_splits)
  then have pre: "py_prefix base s = s"
    by (simp add: py_prefix_def)
  from py_digits_plain [OF assms(1-3)] show "py_int base s = Ok (int n)"
    using c pre py_strip_printable [OF assms(4)] by (simp add: py_int_def s)
  have "printable (CHR ''-'' # s)"
    using assms(4) by (simp add: code_def)
  from py_digits_plain [OF assms(1-3)] py_strip_printable [OF this] pre
  show "py_int base (CHR ''-'' # s) = Ok (- int n)" if "base = 10"
    by (simp add: py_int_def)
qed

lemma py_int_show_nat: "py_int 10 (show_nat n) = Ok (int n)" "py_int 10 (CHR ''-'' # show_nat n) = Ok (- int n)"
  using py_int_digits [OF digits_value_show_nat _ _ show_nat_printable] by simp_all

lemma py_int_show_u64: "py_int 10 (show_u64 w) = Ok (uint w)"
  by (simp add: show_u64_def py_int_show_nat)

lemma py_int_show_i64: "py_int 10 (show_i64 w) = Ok (sint w)"
  by (simp add: show_i64_def py_int_show_nat)

lemma py_int_hex_pad: "0 < n \<Longrightarrow> v < 16 ^ n \<Longrightarrow> py_int 16 (hex_pad n v) = Ok (int v)"
  using py_int_digits(1) [of 16 "hex_pad n v" v] digits_value_hex_pad [of 0 n v]
  by (simp add: hex_pad_printable flip: length_0_conv)

lemma py_fromhex_to_hex: "py_fromhex (to_hex bs) = Ok bs"
proof (induction bs)
  case (Cons b bs)
  have b: "unat b < 256"
    using unsigned_less [of b, where ?'a = nat] by simp
  then have "to_digit 16 (digit_char (unat b div 16 mod 16)) = Some (unat b div 16)"
    "to_digit 16 (digit_char (unat b mod 16)) = Some (unat b mod 16)"
    by (simp_all add: to_digit_digit_char)
  moreover have "\<not> ascii_ws (digit_char (unat b div 16 mod 16))"
    using code_digit_char [of "unat b div 16 mod 16"] by (simp add: ascii_ws_def)
  moreover have "hex_pad 2 (unat b) = [digit_char (unat b div 16 mod 16), digit_char (unat b mod 16)]"
    by (simp add: numeral_2_eq_2)
  ultimately show ?case
    using Cons.IH by (simp del: hex_pad.simps)
qed simp

section \<open>Values read\<close>

lemma py_local_view: "xml_name n \<Longrightarrow> py_local (Element (in_ns ns n) as t ks) = n"
proof -
  assume "xml_name n"
  then have "CHR ''}'' \<notin> set n"
    by (auto simp: xml_name_def list_all_iff code_def)
  from split_on_snoc [OF this, of "CHR ''{'' # ns"] show ?thesis
    by (simp add: py_local_def in_ns_def)
qed

lemma local_trees [simp]:
  "py_local (et_view ns (value_tree L v)) = ''v''" "py_local (et_view ns (field_tree L f)) = ''f''"
  "xml_name tag \<Longrightarrow> py_local (et_view ns (text_tree tag t)) = tag"
proof -
  show "py_local (et_view ns (value_tree L v)) = ''v''"
    by (cases v) (simp_all add: scalar_tree_def py_local_view)
  show "py_local (et_view ns (field_tree L f)) = ''f''"
    by (cases f) (simp add: py_local_view)
  show "py_local (et_view ns (text_tree tag t)) = tag" if "xml_name tag"
    using that by (simp add: text_tree_def py_local_view)
qed

lemma traverse_map:
  "(\<And>x. x \<in> set xs \<Longrightarrow> f (g x) = Ok (h x)) \<Longrightarrow> traverse f (map g xs) = Ok (map h xs)"
  by (induction xs) simp_all

lemma decode_scalar:
  "py_decode_value E (et_view ns (scalar_tree k t)) =
    py_decode_value E (Element (in_ns ns ''v'') [(''k'', k)] (shown_text (Some t)) [])"
  by (simp add: scalar_tree_def)

lemma text_or_shown: "t \<noteq> [] \<or> d = [] \<Longrightarrow> text_or d (Element n as (shown_text (Some t)) ks) = t"
  by (auto simp: text_or_def shown_text_def)

lemma numbers_nonempty [simp]: "show_u64 n \<noteq> []" "show_i64 n \<noteq> []"
  by (simp_all add: show_u64_def show_i64_def)

lemma py_decode_read:
  "readable_value L E v \<Longrightarrow> py_decode_value E (et_view ns (value_tree L v)) = Ok (py_of_value v)"
  "readable_field L E f \<Longrightarrow> bindR (py_decode_value E (et_view ns (value_tree L (fld_value f))))
     (\<lambda>v. Ok (PyField (Some (fld_name f)) v)) = Ok (py_of_field f)"
proof (induction L E v and L E f rule: readable_value_readable_field.induct)
  case (1 L E fs)
  have "traverse (\<lambda>f. bindR (case py_find ''v'' f of Some c \<Rightarrow> py_decode_value E c | None \<Rightarrow> Ok PyNil)
        (\<lambda>v. Ok (PyField (map_of (el_attrs f) ''n'') v))) (map (et_view ns \<circ> field_tree L) fs) = Ok (map py_of_field fs)"
  proof (rule traverse_map)
    fix f assume "f \<in> set fs"
    with 1 have "bindR (py_decode_value E (et_view ns (value_tree L (fld_value f)))) (\<lambda>v. Ok (PyField (Some (fld_name f)) v)) = Ok (py_of_field f)"
      by (auto simp: list_all_iff)
    then show "bindR (case py_find ''v'' ((et_view ns \<circ> field_tree L) f) of Some c \<Rightarrow> py_decode_value E c | None \<Rightarrow> Ok PyNil)
        (\<lambda>v. Ok (PyField (map_of (el_attrs ((et_view ns \<circ> field_tree L) f)) ''n'') v)) = Ok (py_of_field f)"
      by (cases f) (simp add: py_find_def)
  qed
  then show ?case
    by (simp add: py_decode_value.simps [of E "Element _ _ _ _"] comp_def filter_map)
next
  case (2 L E vs)
  have "traverse (py_decode_value E) (map (et_view ns \<circ> value_tree L) vs) = Ok (map py_of_value vs)"
    using 2 by (intro traverse_map) (auto simp: list_all_iff)
  then show ?case
    by (simp add: py_decode_value.simps [of E "Element _ _ _ _"] comp_def filter_map)
qed (simp_all add: decode_scalar py_decode_value.simps [of _ "Element _ _ _ _"] text_or_shown py_int_show_u64
    py_int_show_i64 py_fromhex_to_hex float_laws_def)

section \<open>Envelopes read\<close>

lemma text_tree_text [simp]: "el_text (et_view ns (text_tree tag t)) = shown_text (Some t)"
  "text_or [] (et_view ns (text_tree tag t)) = t"
  by (simp_all add: text_tree_def text_or_shown)

lemma py_parse_readable: "readable_address a \<Longrightarrow> py_parse_text (shown_text (Some (address_display a))) = Ok a"
proof -
  assume r: "readable_address a"
  then have "py_strip (address_display a) = address_display a"
    using py_strip_trim [OF plain_no_separator] by (simp add: readable_address_def)
  moreover have "address_display a \<noteq> []"
    using r parse_address_display [of a] by (auto simp: readable_address_def parse_address_def)
  ultimately show ?thesis
    using py_parse_display [of a "[]"] r by (simp add: py_parse_text_def shown_text_def readable_address_def)
qed

lemma py_prov_text:
  "py_strip (prov_to_hex p) = prov_to_hex p" "py_int 16 (take 16 (prov_to_hex p)) = Ok (uint (bits_hi p))"
  "py_int 16 (drop 16 (prov_to_hex p)) = Ok (uint (bits_lo p))"
proof -
  have "unat w < 16 ^ 16" for w :: u64
    using unsigned_less [of w, where ?'a = nat] by simp
  then have hex: "py_int 16 (hex_pad 16 (unat w)) = Ok (uint w)" for w :: u64
    using py_int_hex_pad [of 16 "unat w"] by (simp del: hex_pad.simps)
  show "py_strip (prov_to_hex p) = prov_to_hex p"
    by (rule py_strip_printable [OF prov_hex_printable])
  show "py_int 16 (take 16 (prov_to_hex p)) = Ok (uint (bits_hi p))"
    "py_int 16 (drop 16 (prov_to_hex p)) = Ok (uint (bits_lo p))"
    by (simp_all add: prov_to_hex_def hex del: hex_pad.simps)
qed

lemma py_meta_read:
  assumes "readable_address (m_from m)" "pred_option readable_address (m_to m)" "m_thread m \<noteq> []"
  shows "py_meta_loop \<lparr>pmf_from = None, pmf_to = None, pmf_thread = None, pmf_prov = 0\<rparr> (map (et_view ns) (meta_trees m)) =
    Ok \<lparr>pmf_from = Some (m_from m), pmf_to = m_to m, pmf_thread = Some (m_thread m), pmf_prov = prov_int (m_provenance m)\<rparr>"
proof -
  have "shown_text (Some (m_thread m)) = Some (m_thread m)"
    using assms(3) by (simp add: shown_text_def)
  moreover have "prov_is_empty (m_provenance m) \<Longrightarrow> prov_int (m_provenance m) = 0"
    by (simp add: prov_int_zero)
  ultimately show ?thesis
    using assms(1,2)
    by (cases "m_to m") (auto simp: meta_trees_def py_parse_readable py_prov_text prov_int_def [symmetric] Let_def)
qed

lemma plain_printed: "plain_text (show_u64 n)" "plain_text (show_i64 i)" "plain_text (to_hex bs)" "plain_text (prov_to_hex p)"
  "plain_text ''true''" "plain_text ''false''"
  using scalar_printable prov_hex_printable printable_plain
  by (blast, blast, blast, blast) (simp_all add: plain_text_def code_def)

lemma attrs_ok_one [simp]: "attrs_ok []" "attrs_ok [(k, v)] \<longleftrightarrow> xml_name k \<and> k \<noteq> ''xmlns'' \<and> plain_text v"
  by (simp_all add: attrs_ok_def)

lemma plain_kinds [simp]:
  "plain_text ''rec''" "plain_text ''seq''" "plain_text ''text''" "plain_text ''uint''" "plain_text ''sint''"
  "plain_text ''real''" "plain_text ''bool''" "plain_text ''blob''" "plain_text ''nil''"
  by (simp_all add: plain_text_def code_def)

lemma tree_ok_value:
  "readable_value L E v \<Longrightarrow> tree_ok (value_tree L v)" "readable_field L E f \<Longrightarrow> tree_ok (field_tree L f)"
  by (induction L E v and L E f rule: readable_value_readable_field.induct)
    (auto simp: scalar_tree_def plain_printed float_laws_def list_all_iff)

lemma tree_ok_message:
  "readable_envelope L E env \<Longrightarrow> tree_ok (Node ''message'' [] None (message_trees L env))"
  using tree_ok_value(1) [of L E "pl_value (e_payload env)"]
  by (cases "m_to (e_meta env)")
    (simp_all add: message_trees_def meta_trees_def text_tree_def readable_envelope_def readable_address_def plain_printed)

lemma py_decode_encoded:
  assumes "et_laws L E" "readable_envelope L E env"
  shows "py_decode_envelope E (bytes_of L (envelope_events L env)) = Ok (py_of env)"
proof -
  have et: "et_fromstring E (bytes_of L (envelope_events L env)) =
      Some (et_view ENVELOPE_NS (Node ''message'' [] None (message_trees L env)))"
    unfolding tree_events_envelope [symmetric]
    using assms(1) tree_ok_message [OF assms(2)] unfolding et_laws_def by blast
  have "py_decode_value E (et_view ENVELOPE_NS (value_tree L (pl_value (e_payload env)))) = Ok (py_of_value (pl_value (e_payload env)))"
    using py_decode_read(1) assms(2) by (simp add: readable_envelope_def)
  moreover note py_meta_read [of "e_meta env" ENVELOPE_NS]
  ultimately show ?thesis
    using assms(2)
    by (simp add: py_decode_envelope_def et py_local_view py_find_def message_trees_def readable_envelope_def py_of_def Let_def)
qed

section \<open>The two servers\<close>

definition py_peer_of :: "peer \<Rightarrow> py_peer" where
  "py_peer_of p = \<lparr>pyp_namespace = peer_namespace p, pyp_endpoint = peer_endpoint p, pyp_key = peer_key p,
     pyp_inbound_provenance = prov_int (inbound_provenance p)\<rparr>"

definition py_directory_of :: "peer_directory \<Rightarrow> (string \<rightharpoonup> py_peer)" where
  "py_directory_of d = (\<lambda>ns. map_option py_peer_of (directory_get d ns))"

definition py_server_of :: "federation_server \<Rightarrow> py_server" where
  "py_server_of srv = \<lparr>pys_node = fs_node srv, pys_directory = py_directory_of (fs_directory srv),
     pys_authorize = Some (\<lambda>frm to. fs_authorizer srv frm to = Ok ())\<rparr>"

text \<open>The plaintext a frame decrypts to under the key of the peer it names.\<close>

definition frame_plaintext :: "aead \<Rightarrow> peer_directory \<Rightarrow> u8 list \<Rightarrow> u8 list option" where
  "frame_plaintext A d frame =
     (case parse_header frame of
        Ok (header, sender, off) \<Rightarrow>
          Option.bind (directory_get d sender) (\<lambda>p.
            if length (drop off frame) < 24 then None
            else aead_decrypt A (peer_key p) (take 24 (drop off frame)) (drop 24 (drop off frame)) header)
      | _ \<Rightarrow> None)"

lemma frame_plaintext_seal:
  assumes "aead_laws A" "seal L A (Some nonce) env sender (peer_key p) = Ok frame" "length nonce = 24"
    and "length sender < 65536" "utf8_valid sender" "directory_get d sender = Some p"
  shows "frame_plaintext A d frame = Some pt \<Longrightarrow> encode_envelope L env = Ok pt"
proof -
  from assms(2) obtain pt' ct where pt': "encode_envelope L env = Ok pt'"
    and ct: "aead_encrypt A (peer_key p) nonce pt' (encode_header sender) = Some ct"
    and frame: "frame = encode_header sender @ nonce @ ct"
    by (auto simp: seal_def Let_def result_iffs split: if_splits)
  have "aead_decrypt A (peer_key p) nonce ct (encode_header sender) = Some pt'"
    using assms(1) ct by (simp add: aead_laws_def)
  then have "frame_plaintext A d frame = Some pt'"
    using parse_encode_header [OF assms(4,5), of "nonce @ ct"] assms(3,6)
    by (simp add: frame_plaintext_def frame del: encode_header_nth)
  then show "frame_plaintext A d frame = Some pt \<Longrightarrow> encode_envelope L env = Ok pt"
    using pt' by simp
qed

lemma py_open_bad_header:
  "\<not> is_ok (parse_header frame) \<Longrightarrow> \<not> is_ok (py_open_frame E A frame d)"
  by (auto simp: parse_header_def py_open_frame_def PY_VERSION_def PY_AUTH_PSK_def VERSION_def AUTH_PSK_def Let_def
      drop_take from_utf8_def split: if_splits option.splits)

lemma py_open_header:
  assumes "parse_header frame = Ok (header, sender, off)"
  shows "py_open_frame E A frame d =
    bindR (ok_or (ValueError (Msg ''unknown peer: {sender}'' [sender])) (py_directory_get d sender)) (\<lambda>peer.
      if length (drop off frame) < PY_NONCE_LEN then Err (value_error ''malformed frame'')
      else bindR (ok_or (value_error ''decrypt/authentication failed'')
             (aead_decrypt A (pyp_key peer) (take PY_NONCE_LEN (drop off frame)) (drop PY_NONCE_LEN (drop off frame)) header))
           (\<lambda>plaintext. bindR (py_decode_envelope E plaintext) (\<lambda>env. Ok (env, sender))))"
  using assms
  by (auto simp: parse_header_def py_open_frame_def PY_VERSION_def PY_AUTH_PSK_def VERSION_def AUTH_PSK_def Let_def
      drop_take split: if_splits option.splits)

lemma frames_agree:
  assumes "\<And>n p. directory_get d n = Some p \<Longrightarrow> key_ok (peer_key p)"
    and "\<And>pt. frame_plaintext A d frame = Some pt \<Longrightarrow>
      \<exists>env. decode_envelope L pt = Ok env \<and> py_decode_envelope E pt = Ok (py_of env)"
  shows "(\<exists>env sender. open_frame L A frame d = Ok (env, sender) \<and> py_open_frame E A frame (py_directory_of d) = Ok (py_of env, sender)) \<or>
    \<not> is_ok (open_frame L A frame d) \<and> \<not> is_ok (py_open_frame E A frame (py_directory_of d))"
proof (cases "parse_header frame")
  case (Ok h)
  then obtain header sender off where h: "parse_header frame = Ok (header, sender, off)"
    by (cases h) auto
  note unfold = open_frame_def h py_open_header [OF h] py_directory_of_def py_directory_get_def Let_def
  show ?thesis
  proof (cases "directory_get d sender")
    case None
    then show ?thesis by (simp add: unfold)
  next
    case (Some p)
    let ?body = "drop off frame"
    show ?thesis
    proof (cases "length ?body < 24")
      case True
      with Some show ?thesis by (simp add: unfold NONCE_LEN_def PY_NONCE_LEN_def)
    next
      case False
      show ?thesis
      proof (cases "aead_decrypt A (peer_key p) (take 24 ?body) (drop 24 ?body) header")
        case None
        with Some False show ?thesis
          by (simp add: unfold NONCE_LEN_def PY_NONCE_LEN_def py_peer_of_def)
      next
        case pt: (Some pt)
        from pt Some False have "frame_plaintext A d frame = Some pt"
          by (simp add: frame_plaintext_def h)
        from assms(2) [OF this] obtain env where "decode_envelope L pt = Ok env" "py_decode_envelope E pt = Ok (py_of env)"
          by blast
        with pt Some False assms(1) [OF Some] show ?thesis
          by (simp add: unfold NONCE_LEN_def PY_NONCE_LEN_def py_peer_of_def)
      qed
    qed
  qed
next
  case (Err e)
  then show ?thesis
    using py_open_bad_header [of frame] by (simp add: open_frame_def)
next
  case Panic
  then show ?thesis
    using py_open_bad_header [of frame] by (simp add: open_frame_def)
qed

lemma py_reroot: "py_reroot_origin a ns = reroot_origin a ns"
  by (simp add: py_reroot_origin_def reroot_origin_def Let_def)

lemma py_stamp_of: "py_stamp (py_server_of srv) sender (py_of env) = py_of (stamp_inbound srv sender env)"
proof (cases "directory_get (fs_directory srv) sender")
  case None
  have "prov_int (prov_union p EMPTY) = prov_int p" for p
    by (simp add: prov_union_def EMPTY_def)
  with None show ?thesis
    by (simp add: py_stamp_def stamp_inbound_def py_server_of_def py_directory_get_def py_directory_of_def py_of_def
        py_reroot Let_def)
next
  case (Some p)
  then show ?thesis
    by (simp add: py_stamp_def stamp_inbound_def py_server_of_def py_directory_get_def py_directory_of_def py_of_def
        py_reroot prov_int_union py_peer_of_def Let_def)
qed

lemma py_localize_of: "py_strip_node (py_server_of srv) (py_of env) = py_of (localize srv env)"
  by (cases "m_to (e_meta env)") (auto simp: py_strip_node_def localize_def strip_node_def py_server_of_def py_of_def Let_def)

lemma py_authorized_of: "py_authorized (py_server_of srv) (py_of env) \<longleftrightarrow> authorize_inbound srv env = Ok ()"
  by (cases "m_to (e_meta env)") (auto simp: py_authorized_def authorize_inbound_def py_server_of_def py_of_def Let_def)

text \<open>The servers with a delivery that keeps what it is given.\<close>

lemma servers_agree_open:
  assumes "(\<exists>env sender. open_frame L A frame (fs_directory srv) = Ok (env, sender) \<and>
      py_open_frame E A frame (py_directory_of (fs_directory srv)) = Ok (py_of env, sender)) \<or>
    \<not> is_ok (open_frame L A frame (fs_directory srv)) \<and> \<not> is_ok (py_open_frame E A frame (py_directory_of (fs_directory srv)))"
    and "fed_receive L A (\<lambda>e d. (Ok (), d @ [e])) srv frame box = (r, box')"
    and "py_receive E A (\<lambda>e d. (Ok (), d @ [e])) (py_server_of srv) frame (map py_of box) = (pr, pbox)"
  shows "is_ok pr = is_ok r \<and> pbox = map py_of box'"
  using assms(1)
proof (elim disjE exE conjE)
  fix env sender
  assume o: "open_frame L A frame (fs_directory srv) = Ok (env, sender)"
    "py_open_frame E A frame (py_directory_of (fs_directory srv)) = Ok (py_of env, sender)"
  let ?env = "stamp_inbound srv sender env"
  have po: "py_open_frame E A frame (pys_directory (py_server_of srv)) = Ok (py_of env, sender)"
    using o(2) by (simp add: py_server_of_def)
  note unfold = fed_receive_def o(1) py_receive_def po Let_def py_stamp_of py_authorized_of py_localize_of
  show ?thesis
  proof (cases "authorize_inbound srv ?env = Ok ()")
    case True
    show ?thesis
      using assms(2,3) by (auto simp: unfold True)
  next
    case False
    then obtain e where "authorize_inbound srv ?env = Err e \<or> authorize_inbound srv ?env = Panic"
      by (cases "authorize_inbound srv ?env") auto
    then show ?thesis
    proof
      assume u: "authorize_inbound srv ?env = Err e"
      show ?thesis using assms(2,3) by (auto simp: unfold u)
    next
      assume u: "authorize_inbound srv ?env = Panic"
      show ?thesis using assms(2,3) by (auto simp: unfold u)
    qed
  qed
next
  assume "\<not> is_ok (open_frame L A frame (fs_directory srv))"
    "\<not> is_ok (py_open_frame E A frame (py_directory_of (fs_directory srv)))"
  then show ?thesis
    using assms(2,3)
    by (auto simp: fed_receive_def py_receive_def py_server_of_def is_ok_iff split: result.splits)
qed

end
