(* ===== verification/Python_Claims.thy ===== *)
theory Python_Claims
  imports Python_Reads Federation_Claims
begin

text \<open>
  The properties of the Python mirror \<open>python/rust_pipeline_federation.py\<close>, with the concrete
  libraries their witnesses use.
\<close>

section \<open>Concrete libraries\<close>

text \<open>An event writer that writes markup, and an element parser for the sample library's format.\<close>

definition markup_lib :: lib where
  "markup_lib = sample_lib\<lparr>xml_write := (\<lambda>e. Inr (as_bytes (markup e)))\<rparr>"

type_synonym open_element = "string \<times> (string \<times> string) list \<times> string option \<times> element list"

fun et_step :: "xml_event \<Rightarrow> open_element list \<Rightarrow> open_element list" where
  "et_step (XStart n as) st = (n, as, None, []) # st"
| "et_step (XText s) ((n, as, t, ks) # st) = (n, as, shown_text (Some s), ks) # st"
| "et_step (XEnd _) ((n, as, t, ks) # (m, bs, u, ls) # st) = (m, bs, u, ls @ [Element n as t ks]) # st"
| "et_step (XEmpty n as) ((m, bs, u, ls) # st) = (m, bs, u, ls @ [Element n as None []]) # st"
| "et_step _ st = st"

fun qualify :: "string \<Rightarrow> element \<Rightarrow> element" where
  "qualify ns (Element n as t ks) = Element (in_ns ns n) as t (map (qualify ns) ks)"

definition sample_std :: pystd where
  "sample_std = \<lparr>et_fromstring = (\<lambda>bs.
       case fold et_step (take_events (length bs) bs) [([], [], None, [])] of
         [(_, _, _, [Element n ((_, ns) # as) t ks])] \<Rightarrow> Some (qualify ns (Element n as t ks))
       | _ \<Rightarrow> None),
     py_repr = show_u64, py_float = parse_u64\<rparr>"

fun raw_element :: "xnode \<Rightarrow> element" where
  "raw_element (Node n as t ks) = Element n as (shown_text t) (map raw_element ks)"
| "raw_element (Leaf n as) = Element n as None []"

lemma qualify_raw: "qualify ns (raw_element t) = et_view ns t"
  by (induction t) simp_all

lemma sample_escaped [simp]: "escaped sample_lib as = as"
  by (simp add: sample_lib_def)

lemma fold_tree:
  "fold et_step (tree_events sample_lib t) ((m, bs, u, ls) # st) = (m, bs, u, ls @ [raw_element t]) # st"
proof (induction t arbitrary: m bs u ls st)
  case (Node n as t ks)
  have kids: "fold et_step (concat (map (tree_events sample_lib) ks')) ((n, as, v, ls') # st') =
      (n, as, v, ls' @ map raw_element ks') # st'" if "set ks' \<subseteq> set ks" for ks' v ls' st'
    using that Node.IH by (induction ks' arbitrary: ls') simp_all
  have [simp]: "xml_escape sample_lib s = s" for s
    by (simp add: sample_lib_def)
  show ?case
    by (cases t) (simp_all add: kids shown_text_def)
qed simp

lemma sample_bytes: "bytes_of sample_lib es = concat (map put_event es)"
  by (simp add: bytes_of_def sample_lib_def)

lemma sample_et_laws: "et_laws sample_lib sample_std"
proof -
  have "et_fromstring sample_std (bytes_of sample_lib (tree_events sample_lib (Node n ((''xmlns'', ns) # as) t ks))) =
      Some (et_view ns (Node n as t ks))" for n as t ks ns
  proof -
    let ?es = "tree_events sample_lib (Node n ((''xmlns'', ns) # as) t ks)"
    have "take_events (length (bytes_of sample_lib ?es)) (bytes_of sample_lib ?es) = ?es"
      unfolding sample_bytes by (rule take_put_events [OF put_events_length])
    moreover have "fold et_step ?es [([], [], None, [])] =
        [([], [], None, [Element n ((''xmlns'', ns) # as) (shown_text t) (map raw_element ks)])]"
      using fold_tree [of "Node n ((''xmlns'', ns) # as) t ks" "[]" "[]" None "[]" "[]"] by simp
    ultimately show ?thesis
      by (simp add: sample_std_def qualify_raw del: tree_events.simps)
  qed
  then show ?thesis
    unfolding et_laws_def by blast
qed

lemma markup_laws: "writer_laws markup_lib" "escape_laws markup_lib"
  by (simp_all add: markup_lib_def writer_laws_def escape_laws_def sample_lib_def)

section \<open>Addresses\<close>

text \<open>
  C28. The address parsers: on a text without white space at its ends that Rust parses, Python reads
  the same address exactly when no key contains a bracket; it prints it as Rust does, and its
  accessors agree (its cache keys up to empty parts).  Python also accepts such a text followed by
  a dot, as the same address, which Rust refuses.
\<close>

theorem python_addresses:
  assumes "parse_address s = Ok a" "py_strip s = s"
  shows "(py_parse s = Ok a \<longleftrightarrow> flat_keys (segments a)) \<and> py_str a = s \<and>
    (flat_keys (segments a) \<and> py_strip (s @ ''.'') = s @ ''.'' \<longrightarrow>
       py_parse (s @ ''.'') = Ok a \<and> \<not> is_ok (parse_address (s @ ''.''))) \<and>
    py_organism a = organism a \<and> py_namespace a = namespace a \<and> py_node a = node a \<and>
    py_instance_key a = instance_key a \<and> py_buffer a = buffer a \<and> instance_address a = Ok (py_instance_address a) \<and>
    filter (\<lambda>k. k \<noteq> []) (py_cache_keys a) = cache_keys a"
proof -
  have a: "wf_address a" "address_display a = s"
    using parse_address_wf [OF assms(1)] address_display_parse [OF assms(1)] by simp_all
  then have "segments a \<noteq> []" by (simp add: wf_address_def)
  moreover have "\<not> is_ok (parse_address (s @ ''.''))"
    by (auto simp: is_ok_iff parse_address_def result_iffs parse_loop_dot)
  moreover have "py_parse s = Ok a \<longleftrightarrow> flat_keys (segments a)"
    using py_parse_flat py_parse_display [OF a(1), of "[]"] assms(2) by (auto simp: a(2))
  ultimately show ?thesis
    using py_parse_display [OF a(1), of "''.''"] a(2)
    by (auto simp: py_accessors py_cache_keys_filter py_str_display)
qed

theorem python_addresses_witness:
  "\<exists>a b. py_parse ''bob[alice].dm'' = Ok a \<and> py_parse ''bob[alice].dm.'' = Ok a \<and> \<not> is_ok (parse_address ''bob[alice].dm.'') \<and>
     parse_address ''a[b[c]]'' = Ok b \<and> py_parse ''a[b[c]]'' \<noteq> Ok b"
proof -
  let ?a = "\<lparr>segments = [\<lparr>seg_name = ''bob'', seg_key = Some ''alice''\<rparr>, \<lparr>seg_name = ''dm'', seg_key = None\<rparr>]\<rparr>"
  let ?b = "\<lparr>segments = [\<lparr>seg_name = ''a'', seg_key = Some ''b[c]''\<rparr>]\<rparr>"
  have p: "parse_address ''bob[alice].dm'' = Ok ?a" "parse_address ''a[b[c]]'' = Ok ?b"
    by code_simp+
  have s: "py_strip ''bob[alice].dm'' = ''bob[alice].dm''" "py_strip ''a[b[c]]'' = ''a[b[c]]''"
    "py_strip (''bob[alice].dm'' @ ''.'') = ''bob[alice].dm'' @ ''.''"
    by (rule py_strip_printable; simp add: code_def)+
  have f: "flat_keys (segments ?a)" "\<not> flat_keys (segments ?b)"
    by (simp_all add: flat_keys_def no_brackets_def)
  from python_addresses [OF p(1) s(1)] f(1) s(3)
  have "py_parse ''bob[alice].dm'' = Ok ?a" "py_parse (''bob[alice].dm'' @ ''.'') = Ok ?a"
    "\<not> is_ok (parse_address (''bob[alice].dm'' @ ''.''))" by blast+
  moreover from python_addresses [OF p(2) s(2)] f(2) have "py_parse ''a[b[c]]'' \<noteq> Ok ?b" by blast
  ultimately show ?thesis
    using p(2) by (intro exI [of _ ?a] exI [of _ ?b]) simp
qed

section \<open>Bytes\<close>

text \<open>
  C9. The same bytes: for an envelope whose strings need no escaping (and whose floats the two
  languages print alike), both implementations write the same document, and with the same nonce
  they seal the same frame.  The frame has 16 bits for the length of the sender's name: a name of
  65536 bytes or more Python refuses, and Rust truncates the length, so that the header of a name of
  65536 bytes more than a prefix parses as that prefix.
\<close>

theorem python_writes_same_bytes:
  assumes "writer_laws L" "escape_laws L" "plain_envelope L E env" "key_ok key"
  shows "(\<exists>raw. encode_envelope L env = Ok raw \<and> py_encode_envelope E (py_of env) = Ok raw) \<and>
    (if length sender < 65536
     then \<forall>frame. py_seal E A nonce (py_of env) sender key = Ok frame \<longleftrightarrow> seal L A (Some nonce) env sender key = Ok frame
     else py_seal E A nonce (py_of env) sender key = Err StructError \<and>
       (\<forall>k. length sender = 65536 + k \<and> k < 65536 \<and> utf8_valid (take k sender) \<longrightarrow>
          (\<exists>h. parse_header (encode_header sender @ body) = Ok (h, take k sender, 4 + k))))"
  using py_envelope_bytes [OF assms(1-3)] encode_envelope_total [OF writer_laws_total [OF assms(1)], of env]
    py_seal_eq [OF assms(1-3) _ assms(4)] assms(4) long_sender_truncated [of sender _ body]
  by (auto simp: py_seal_def py_encode_header_def key_ok_def)

theorem python_writes_same_bytes_witness:
  "(\<exists>raw. encode_envelope markup_lib hop_env = Ok raw \<and> py_encode_envelope sample_std (py_of hop_env) = Ok raw) \<and>
   py_seal sample_std sample_aead (replicate 24 0) (py_of hop_env) (replicate 65537 CHR ''a'') (replicate 32 7) = Err StructError \<and>
   (\<exists>h. parse_header (encode_header (replicate 65537 CHR ''a'') @ []) = Ok (h, ''a'', 5))"
proof -
  have "plain_envelope markup_lib sample_std hop_env"
    by (simp add: plain_envelope_def hop_env_def address_display_def seg_display_def payload_single_def unescaped_def
        no_markup_def code_def)
  moreover have "key_ok (replicate 32 7)"
    by (simp add: key_ok_def)
  moreover have "take 1 (replicate 65537 CHR ''a'') = ''a''" "utf8_valid ''a''"
    by (simp_all add: printable_utf8 code_def)
  ultimately show ?thesis
    using python_writes_same_bytes [OF markup_laws, of sample_std hop_env "replicate 32 7" "replicate 65537 CHR ''a''"
        sample_aead "replicate 24 0" "[]"]
    by simp
qed

section \<open>The servers\<close>

text \<open>
  C38. The two servers agree: configured alike, and given any frame that either does not decrypt or
  decrypts to what a Rust node encoded for an envelope of printable text (with bracket-free keys and
  no white space at the ends of its texts), the Python server accepts it exactly when the Rust
  server does, and delivers the same envelope: re-rooted on the authenticated peer, with the edge's
  provenance, authorized, and stripped of the node's prefix.
\<close>

theorem python_server_agrees:
  assumes "xml_laws L" "escape_laws L" "et_laws L E"
    and "\<And>n p. directory_get (fs_directory srv) n = Some p \<Longrightarrow> key_ok (peer_key p)"
    and "\<And>pt. frame_plaintext A (fs_directory srv) frame = Some pt \<Longrightarrow>
      \<exists>env. readable_envelope L E env \<and> wf_envelope L env \<and> norm_envelope env = env \<and> encode_envelope L env = Ok pt"
    and "fed_receive L A (\<lambda>e d. (Ok (), d @ [e])) srv frame box = (r, box')"
    and "py_receive E A (\<lambda>e d. (Ok (), d @ [e])) (py_server_of srv) frame (map py_of box) = (pr, pbox)"
  shows "(is_ok pr \<longleftrightarrow> is_ok r) \<and> pbox = map py_of box'"
proof -
  have decoders: "\<exists>env. decode_envelope L pt = Ok env \<and> py_decode_envelope E pt = Ok (py_of env)"
    if pt: "frame_plaintext A (fs_directory srv) frame = Some pt" for pt
  proof -
    from assms(5) [OF pt] obtain env where env: "readable_envelope L E env" "wf_envelope L env" "norm_envelope env = env"
      "encode_envelope L env = Ok pt" by blast
    have "decode_envelope L pt = Ok env"
      using decode_encode_env [OF assms(1,2) env(2)] env(3,4) by simp
    moreover have "py_decode_envelope E pt = Ok (py_of env)"
      using py_decode_encoded [OF assms(3) env(1)] env(4) by (simp add: encode_envelope_bytes assms(1))
    ultimately show ?thesis by blast
  qed
  from servers_agree_open [OF frames_agree [OF assms(4) decoders] assms(6,7)] show ?thesis by simp
qed

theorem python_server_agrees_witness:
  "\<exists>env. snd (fed_receive sample_lib sample_aead (\<lambda>e d. (Ok (), d @ [e])) sample_srv hop_frame []) = [env] \<and>
     snd (py_receive sample_std sample_aead (\<lambda>e d. (Ok (), d @ [e])) (py_server_of sample_srv) hop_frame []) = [py_of env]"
proof -
  obtain r box' where rust: "fed_receive sample_lib sample_aead (\<lambda>e d. (Ok (), d @ [e])) sample_srv hop_frame [] = (r, box')"
    by fastforce
  obtain pr pbox where python: "py_receive sample_std sample_aead (\<lambda>e d. (Ok (), d @ [e])) (py_server_of sample_srv) hop_frame (map py_of []) = (pr, pbox)"
    by fastforce
  have keys: "key_ok (peer_key p)" if "directory_get (fs_directory sample_srv) n = Some p" for n p
    using that by (auto simp: sample_srv_def sample_dir_def directory_get_def directory_register_def directory_new_def
        sample_peer_def key_ok_def split: if_splits)
  have read: "readable_envelope sample_lib sample_std hop_env"
    by (simp add: readable_envelope_def readable_address_def hop_env_def wf_flat plain_name_def flat_keys_def
        address_display_def seg_display_def plain_text_def trim_printable payload_single_def code_def)
  have plain: "frame_plaintext sample_aead (fs_directory sample_srv) hop_frame = Some pt \<Longrightarrow>
      encode_envelope sample_lib hop_env = Ok pt" for pt
    using frame_plaintext_seal [OF sample_aead_laws hop_sealed _ _ ringhub_utf8 sample_dir_get, of pt]
    by (simp add: sample_srv_def)
  have sealed: "\<exists>env. readable_envelope sample_lib sample_std env \<and> wf_envelope sample_lib env \<and> norm_envelope env = env \<and>
      encode_envelope sample_lib env = Ok pt" if "frame_plaintext sample_aead (fs_directory sample_srv) hop_frame = Some pt" for pt
    using read hop_wf hop_norm plain [OF that] by blast
  have "(is_ok pr \<longleftrightarrow> is_ok r) \<and> pbox = map py_of box'"
    by (rule python_server_agrees [OF sample_xml_laws sample_escape_laws sample_et_laws keys sealed rust python])
  moreover have "box' = [localize sample_srv (stamp_inbound sample_srv ''ringhub'' hop_env)]"
    using rust by (simp add: fed_receive_def sample_srv_def hop_opened authorize_inbound_def allow_all_def hop_env_def Let_def)
  ultimately show ?thesis
    using rust python by simp
qed

end
