(* ===== verification/Spec2Isabelle.thy ===== *)
theory Spec2Isabelle
  imports Race_Run Typed_Laws Identity_Laws Thread_Queues Wire_Claims Interop Python_Claims
begin

text \<open>
  This development models the crate \<open>rust-pipeline\<close>: a message pipeline in which untrusted bytes earn
  their way to a handler through four stages, and what a handler answers re-enters as untrusted
  bytes.  Paths below are under \<open>src/\<close> of the repository.

  \<^bold>\<open>The program and how its parts interact.\<close>  Bytes enter by \<open>Pipeline::inject\<close> into a bounded channel.
  The parse stage decodes an envelope (\<open>src/codec.rs\<close>, \<open>src/wire.rs\<close>), the validate stage checks the
  payload against the schema of its tag (\<open>src/validation.rs\<close>), the route stage hands envelopes for a
  remote node to the federation server or resolves a listener, enforces the peers of the sender
  and registers the thread (\<open>src/routing.rs\<close>, \<open>src/registry.rs\<close>, \<open>src/thread.rs\<close>), and the dispatch
  stage fans out to one serial worker per thread, which runs middleware and handler
  (\<open>src/middleware.rs\<close>, \<open>src/handler.rs\<close>) and sends the response back into the first channel.  A
  federation server (\<open>src/federation.rs\<close>) seals envelopes for peer nodes and opens theirs, and
  delivers them through the switchboard (\<open>src/switchboard.rs\<close>) into the same first channel.

  \<^bold>\<open>Theories, in the order they build on each other.\<close>
  \<^item> \<open>Rust_Prelude\<close>: results with a panic branch, messages, splitting and joining texts, lower case;
    the collection \<open>result_iffs\<close>.  \<open>Rust_Text\<close>: strings as bytes (UTF-8), trimming, number texts.
  \<^item> \<open>Pipeline_Error\<close>, \<open>Wire_Address\<close>, \<open>Wire_Types\<close>: \<open>src/error.rs\<close> and \<open>src/wire.rs\<close>.  A struct is a
    record, an enum a datatype, \<open>u64\<close> and the other integers are words, a floating-point number is
    its 64 bits.  Provenance is refined to a set of labels and made a semilattice.
  \<^item> \<open>Xml_Events\<close>, \<open>Codec\<close>, \<open>Codec_Laws\<close>: \<open>src/codec.rs\<close> over the event reader and writer of the XML
    library (the record \<open>lib\<close>, a parameter); \<open>Sample_Xml\<close> is a concrete library that satisfies the
    hypotheses, for the witnesses.
  \<^item> \<open>Thread_Registry\<close> (\<open>src/thread.rs\<close>), \<open>Routing\<close> (\<open>src/routing.rs\<close>), \<open>Validation\<close>
    (\<open>src/validation.rs\<close>), \<open>Handlers\<close> (\<open>src/handler.rs\<close>, \<open>src/middleware.rs\<close>, \<open>src/registry.rs\<close>),
    \<open>Config_Load\<close> (\<open>src/config.rs\<close>), \<open>Federation\<close> (\<open>src/federation.rs\<close>), \<open>Switchboard\<close>
    (\<open>src/switchboard.rs\<close>): one record per state, one definition per operation.  \<open>Interop\<close>
    (\<open>examples/fed_interop.rs\<close>): the command-line harness for the frame, as a function of its arguments.
  \<^item> \<open>Python_Client\<close> (\<open>python/rust_pipeline_federation.py\<close>): the second implementation of addresses,
    envelope codec, frame and server, over Python's element tree, its float texts and the same cipher
    (the record \<open>pystd\<close>, a parameter); an exception is an error value.
  \<^item> \<open>Pipeline_Stages\<close>, \<open>Workers\<close>, \<open>Pipeline\<close>: \<open>src/pipeline.rs\<close>.  What a stage does with one message;
    the worker map with its workers; the running pipeline as a step relation \<open>pstep\<close> whose steps
    are the pieces of the stages' loops between two waits.  A message a stage holds while it waits
    for room is part of the state.  A worker takes up a message, runs its handler, takes the lock of
    the thread registry to respond, and performs each send and each report to the observer as a step
    of its own (the type \<open>action\<close> lists what it is still to do).  The federation server outside may
    drain its channel and may drop its receiver at any moment (\<open>hangup\<close>); the route stage then drops
    the envelopes for it and goes on (\<open>egress_send\<close>).

  \<^bold>\<open>Interfaces.\<close>  \<open>keyed_registry\<close> is the contract of the hash maps filled by registration (last one
  wins), interpreted for the schemas, the listeners by name, the handlers, their metadata and the
  peers.  \<open>thread_store\<close> is what a client of the thread registry relies on: bindings survive.
  \<open>local_delivery\<close> is what the federation server relies on, interpreted for the switchboard.

  \<^bold>\<open>What the lemmas show.\<close>  \<open>Codec_Laws\<close>: the events an envelope is written as, and the round trip of
  the whole envelope.  \<open>Stage_Laws\<close>: what a routed message satisfies, what each response sends.
  \<open>Call_Laws\<close>: a call's reply finds its caller after any other traffic.  \<open>Pipeline_Steps\<close>: what each
  step does when it is possible.  \<open>Pipeline_Laws\<close>: the
  invariants of the running pipeline (one worker per thread, order, conservation, gates, room) by
  induction over its steps.  \<open>Thread_Queues\<close>: the fan-out refines one queue per thread.
  \<open>Sequential_Laws\<close>: whatever reaches a worker or a peer is what the stages' functions, run one after the
  other, make of an accepted input, in the order of the inputs.  \<open>Progress_Laws\<close>: no deadlock, also around workers that hang.  \<open>Drain_Laws\<close>: the stages by
  themselves come to rest; after the parse stage has stopped all tasks run dry, and what is left then.  \<open>Envelope_Laws\<close>: a property of
  envelopes that responses inherit holds of everything the pipeline holds, with three instances:
  \<open>Taint_Laws\<close> (labels are carried along), \<open>Typed_Laws\<close> (addresses are well formed) and
  \<open>Identity_Laws\<close> (origins are stamped); they rest on \<open>Decode_Laws\<close>, what decoding keeps of an
  encoded envelope whatever its strings are.  \<open>Scenario\<close> and \<open>Race_Run\<close> are concrete runs.  \<open>Python_Laws\<close> and \<open>Python_Reads\<close>: what the Python
  implementation writes and reads is what the Rust one does.  The properties are in \<open>Wire_Claims\<close>,
  \<open>Federation_Claims\<close>, \<open>Python_Claims\<close>, \<open>Interop\<close> and this theory.

  \<^bold>\<open>Bounds.\<close>  No definition uses fuel.  The decoder's mutual recursion terminates because each call
  leaves a shorter event list (proved with its domain predicate); the retry loop of a hand-over
  because its second round finds no entry; the other loops are structural.  The channels have the
  code's bound of 256, the federation channel a bound \<open>cap\<close> chosen by the host.

  \<^bold>\<open>Hypotheses about other code.\<close>  \<open>xml_laws\<close>: what the event writer wrote, the event reader reads,
  with text trimmed and empty text dropped.  \<open>escape_laws\<close>: unescaping undoes escaping, and text
  without markup characters is written as it is.  \<open>f64_laws\<close>: a number's text parses to it.
  \<open>aead_laws\<close>: exactly what was encrypted under a key, nonce and associated data decrypts (an
  idealization of the cipher's authenticity).  \<open>writer_laws\<close>: the event writer writes plain markup.
  \<open>et_laws\<close>: Python's element parser, given what the event writer wrote for a tree of elements in the
  envelope's namespace, returns that tree with its names qualified; \<open>float_laws\<close>: of a number, Python's
  \<open>float\<close> reads back the text that Rust writes.  A fresh thread id is not in use.

  \<^bold>\<open>Not modelled.\<close>  Log output; the tokio scheduler (any interleaving of the steps is allowed; what
  a handler and its middleware do to the host's state is one step, and a handler that never
  returns is a worker whose step is never taken); real time (the idle timeout may fire at any
  moment); the depth counter of the address parser overflowing (it takes more than \<open>2 ^ 31\<close>
  brackets); the lower case of letters outside ASCII; hash collisions and iteration orders other than as
  arbitrary lists; \<open>src/lib.rs\<close>, which only declares and re-exports; the tests
  of the crate and of the Python client.
\<close>

section \<open>The gates of the running pipeline\<close>

text \<open>
  C1. Trust gates: in every reachable state, under every interleaving and whatever is injected, a
  message that a worker takes up carries exactly the payload of its envelope, that payload passed
  the schema check, its target is the first listener the routing table resolves it to, the
  sender is allowed to message that target, and the target has a handler.
\<close>

theorem trust_gates:
  assumes "reachable L cap may p0 p" "threads_inv (p_threads p0)" "registry_wf (p_registry p0)"
    and "take_message i (p_fan p) = Some (rm, f')"
  shows "rm_payload rm = \<lparr>vp_tag = pl_tag (e_payload (rm_envelope rm)), vp_value = pl_value (e_payload (rm_envelope rm))\<rparr> \<and>
    validate_value (lr_schemas (p_registry p0)) (vp_tag (rm_payload rm)) (vp_value (rm_payload rm)) = Ok () \<and>
    (\<exists>es. resolve (lr_routing (p_registry p0)) (Option.bind (m_to (e_meta (rm_envelope rm))) organism)
        (vp_tag (rm_payload rm)) = Ok es \<and> rm_target rm = le_name (hd es)) \<and>
    enforce_peers (lr_routing (p_registry p0)) (sender_name (rm_envelope rm)) (rm_target rm) = Ok () \<and>
    (\<exists>h. get_handler (p_registry p0) (rm_target rm) = Some h)"
  using taken_admissible(1) [OF assms(1,2,4)] admissible_handler [OF assms(3)]
  by (auto simp: admissible_def Let_def)

theorem trust_gates_witness:
  "enforce_peers (lr_routing demo_registry) ''alice'' ''echo'' = Ok () \<and>
   (\<exists>h. get_handler demo_registry ''echo'' = Some h)"
proof -
  obtain f where f: "take_message 0 (p_fan demo8) = Some (demo_rm, f)"
    using demo_taken by blast
  have wf: "registry_wf (p_registry demo_start)"
    using demo_registry_wf by (simp add: demo_threads_ok)
  have "reachable sample_lib 1 (\<lambda>_. True) demo_start demo8"
    by (rule demo_runs)
  from trust_gates [OF this demo_threads_ok(1) wf f] show ?thesis
    by (simp add: demo_threads_ok demo_rm_def demo_env_def sender_name_def name_or_empty_def)
qed

text \<open>
  C2. Serial delivery: in every reachable state there is at most one worker per thread, and per
  thread every message handed over is started, queued, or was queued behind a message whose
  handling panicked; none is lost otherwise, none duplicated; and for a thread none of whose
  workers died the messages started are, in order, the messages handed over but those still queued.
\<close>

theorem serial_delivery:
  assumes "reachable L cap may p0 p" "threads_inv (p_threads p0)"
  shows "(tasks (p_fan p) i = Some v \<and> tasks (p_fan p) j = Some w \<and> wk_key v = wk_key w \<longrightarrow> i = j) \<and>
    mset (for_key k (fo_in (p_fan p))) =
      mset (for_key k (fo_started (p_fan p))) + mset (queue_of (p_fan p) k) + mset (for_key k (fo_lost (p_fan p))) \<and>
    (for_key k (fo_lost (p_fan p)) = [] \<longrightarrow>
      for_key k (fo_in (p_fan p)) = for_key k (fo_started (p_fan p)) @ queue_of (p_fan p) k)"
proof -
  from base_inv_reachable [OF assms] have "fan_inv (p_fan p)" "fifo_inv (p_fan p)"
    by (simp_all add: base_inv_def)
  then show ?thesis
    using fan_inv_unique fifo_exact no_message_lost [OF assms] by metis
qed

theorem serial_delivery_witness:
  "for_key ''t1'' (fo_in (p_fan demo8)) = [demo_rm] \<and> queue_of (p_fan demo8) ''t1'' = [demo_rm]"
proof -
  have r: "reachable sample_lib 1 (\<lambda>_. True) demo_start demo8"
    by (rule demo_runs)
  have empty: "for_key ''t1'' (fo_lost (p_fan demo8)) = []" "for_key ''t1'' (fo_started (p_fan demo8)) = []"
    by (simp_all add: demo_fan)
  have "for_key ''t1'' (fo_in (p_fan demo8)) = [demo_rm]"
    by (simp add: demo_fan for_key_def)
  with serial_delivery [OF r demo_threads_ok(1), THEN conjunct2, THEN conjunct2, of "''t1''"] empty
  show ?thesis by simp
qed

text \<open>
  C3. Refinement: the worker fan-out implements one queue of waiting messages per thread.  It
  starts with all queues empty, and every step of the running pipeline, seen through
  \<open>queues_of\<close>, appends the message the dispatch stage received to the queue of its thread, or starts
  the first message of a queue, or, when the handler a worker runs panics, empties the queue of
  that worker's thread, or leaves the queues alone: no timeout, reap or respawn of a worker shows.
\<close>

theorem workers_refine_queues:
  assumes "reachable L cap may p0 p" "threads_inv (p_threads p0)" "pstep L cap may p p'"
    and "q = queues_of (p_fan p)" "q' = queues_of (p_fan p')"
  shows "queues_of (p_fan (pipeline_run p0)) = tq_empty \<and>
    (q' = q \<or>
     (\<exists>rm r. p_routed p = rm # r \<and> p_routed p' = r \<and> q' = tq_enqueue (thread_of rm) rm q) \<or>
     (\<exists>k rm. tq_start k q = Some (rm, q')) \<or>
     (\<exists>i w rm f s'. tasks (p_fan p) i = Some w \<and> next_action i (p_fan p) = Some (Some (ARun rm), f) \<and>
        handle_message (dispatch_ctx_of p) rm (p_host p) = (Some Panic, s') \<and> q' = tq_crash (wk_key w) q))"
proof -
  have "fan_inv (p_fan p)"
    using base_inv_reachable [OF assms(1,2)] by (simp add: base_inv_def)
  from tq_moves_step [OF assms(3) this] show ?thesis
    unfolding tq_moves_def Let_def assms(4,5) by (simp add: pipeline_run_def queues_of_new)
qed

theorem workers_refine_queues_witness:
  "queues_of (p_fan demo8) = tq_enqueue ''t1'' demo_rm (queues_of (p_fan demo7))"
proof -
  have s: "pstep sample_lib 1 (\<lambda>_. True) demo7 demo8"
    by (rule pstep.work [OF pwork.dispatch_recv [OF demo_steps(8)]])
  have empty: "queues_of (p_fan demo7) = tq_empty" "tasks (p_fan demo7) = Map.empty"
    by (simp_all add: demo_states queues_of_new) (simp add: fan_new_def)
  have "tq_waiting (queues_of (p_fan demo8)) ''t1'' = [demo_rm]"
    by (simp add: queues_of_def queue_of_def demo_fan)
  then have changed: "queues_of (p_fan demo8) \<noteq> tq_empty"
    by (auto simp: tq_empty_def)
  have idle: "tq_start k tq_empty = None" for k :: string
    by (simp add: tq_start_def tq_empty_def)
  have routed: "p_routed demo7 = [demo_rm]" "thread_of demo_rm = ''t1''"
    by (simp_all add: demo7_def demo_rm_def demo_env_def)
  from workers_refine_queues [OF demo_runs(1) demo_threads_ok(1) s refl refl] changed show ?thesis
    unfolding empty idle routed by (simp add: routed(2))
qed

text \<open>
  C4. No deadlock: although workers send into the channel that feeds the first stage and all four
  channels are bounded, in every reachable state of the running pipeline with work left some
  message moves, unless the route stage waits for the federation server to drain its channel.
  This holds also when a set of workers hangs in handlers that never return: as long as there is
  work outside of them, another task can move it.  Nor do the stages run in circles: by themselves
  they take at most as many steps as the messages in them amount to; when they can take none, each of
  these has reached its worker's queue or the federation channel or was rejected (by the first part,
  for the set of all workers).
\<close>

theorem no_deadlock:
  assumes "reachable L cap may p0 p" "threads_finite (p_threads p0)"
    and "running p" "work_outside H p" "\<not> egress_blocked cap p"
  shows "message_moves L cap H p \<and> (\<forall>n p'. (stage_step L cap ^^ n) p p' \<longrightarrow> n \<le> stage_load p)"
  using progress [OF assms(3-5) finite_reachable [OF assms(1,2)]] stage_steps_load by (metis add_leD1)

theorem no_deadlock_witness: "message_moves sample_lib 1 {0} demo7"
proof (rule no_deadlock [THEN conjunct1])
  show "reachable sample_lib 1 (\<lambda>_. True) demo_start demo7"
    by (rule demo_runs)
  show "threads_finite (p_threads demo_start)"
    by (rule demo_threads_ok)
  show "running demo7" "work_outside {0} demo7" "\<not> egress_blocked 1 demo7"
    by (simp_all add: running_def work_outside_def egress_blocked_def demo_states)
qed

text \<open>
  C5. Sequential equivalence: under every interleaving of stages, workers, senders and the
  federation server, the running pipeline does what a program does that takes one message at a time
  through parsing, validation and routing.  Of the messages the ingress has accepted the parse
  stage has taken up the first ones, and all but those in the ingress unless it was shut down;
  what was put into the federation channel and what was handed over to the workers is, in this
  order, what the sequential program delivers for them, completely once the stages are empty (what
  is put into the federation channel only as long as the federation server keeps its receiver: the
  envelopes for it are dropped afterwards); and unless a worker of a thread died, the messages
  started for the thread are the first of those.
\<close>

theorem pipeline_is_sequential:
  assumes "history L cap may p0 p raws envs" "threads_inv (p_threads p0)"
  shows "\<exists>taken rest. raws = taken @ rest \<and> (p_parse_up p \<longrightarrow> rest = p_ingress p) \<and>
    (let ds = sequential L (p_registry p0) (p_federation p0) taken; handed = map snd (fo_in (p_fan p)) in
      prefix envs (to_egress ds) \<and> prefix handed (to_workers ds) \<and>
      (stages_empty p \<longrightarrow> handed = to_workers ds \<and> (p_egress_open p \<longrightarrow> envs = to_egress ds)) \<and>
      (\<forall>k. for_key k (fo_lost (p_fan p)) = [] \<longrightarrow>
         prefix (for_key k (fo_started (p_fan p))) (filter (\<lambda>rm. thread_of rm = k) (to_workers ds))))"
proof -
  have r: "reachable L cap may p0 p"
    using assms(1) history_reachable by blast
  from history_follows [OF assms(1)] obtain taken rest gone where
    f: "raws = taken @ rest" "p_parse_up p \<longrightarrow> rest = p_ingress p" "p_egress_open p \<longrightarrow> gone = []"
    "envs @ gone @ to_egress (under_way p) = to_egress (sequential L (p_registry p0) (p_federation p0) taken)"
    "handed_on p @ to_workers (under_way p) = to_workers (sequential L (p_registry p0) (p_federation p0) taken)"
    unfolding follows_def registry_reachable [OF r] by blast
  let ?ds = "sequential L (p_registry p0) (p_federation p0) taken"
  have p: "prefix envs (to_egress ?ds)" "prefix (map snd (fo_in (p_fan p))) (to_workers ?ds)"
    unfolding f(4) [symmetric] f(5) [symmetric] by (simp_all add: handed_on_def)
  moreover have "map snd (fo_in (p_fan p)) = to_workers ?ds \<and> (p_egress_open p \<longrightarrow> envs = to_egress ?ds)" if "stages_empty p"
    using f(3-5) under_way_empty [OF that] by (auto simp: handed_on_def)
  ultimately show ?thesis
    using f(1,2) started_in_order [OF r assms(2) _ p(2)] unfolding Let_def by blast
qed

theorem pipeline_is_sequential_witness:
  "to_workers (sequential sample_lib demo_registry None [demo_raw]) = [demo_rm]"
proof -
  have demo: "p_parse_up demo8" "p_ingress demo8 = []" "stages_empty demo8" "p_federation demo_start = None"
    "map snd (fo_in (p_fan demo8)) = [demo_rm]"
    by (simp_all add: demo_fan stages_empty_def) (simp_all add: demo_states)
  from pipeline_is_sequential [OF demo_history demo_threads_ok(1)] show ?thesis
    by (auto simp: demo demo_threads_ok(4) Let_def)
qed

text \<open>
  C21. Labels are never lost: when everything injected carries a provenance label, so does the
  envelope of every message any worker takes up and every envelope handed to the federation
  server, through any number of hops, handler responses and re-encodings.
\<close>

theorem labels_never_lost:
  assumes "xml_laws L" "escape_laws L" "reachable L cap (labelled_raw L b) p0 p"
    and "threads_inv (p_threads p0)" "p_egress p0 = []"
  shows "(take_message i (p_fan p) = Some (rm, f') \<longrightarrow> contains_bit (m_provenance (e_meta (rm_envelope rm))) b) \<and>
    (env \<in> set (p_egress p) \<longrightarrow> contains_bit (m_provenance (e_meta env)) b)"
proof (intro conjI impI)
  from label_inv_reachable [OF assms(3) _ assms(4,5,1,2)] have inv: "base_inv p" "gate_inv p" "env_inv L (labelled b) p"
    by simp_all
  show "contains_bit (m_provenance (e_meta (rm_envelope rm))) b" if t: "take_message i (p_fan p) = Some (rm, f')"
    using env_inv_taken(1) [OF inv t] by (simp add: labelled_def)
  show "contains_bit (m_provenance (e_meta env)) b" if "env \<in> set (p_egress p)"
    using that inv(3) unfolding env_inv_def staged_def labelled_def by blast
qed

theorem labels_never_lost_witness:
  "\<exists>f. take_message 0 (p_fan demo8) = Some (demo_rm, f) \<and> contains_bit (m_provenance (e_meta (rm_envelope demo_rm))) 3"
proof -
  obtain f where f: "take_message 0 (p_fan demo8) = Some (demo_rm, f)"
    using demo_taken by blast
  from labels_never_lost [OF sample_xml_laws sample_escape_laws demo_labelled_run
      demo_threads_ok(1,3), of 0 demo_rm f] f
  show ?thesis by blast
qed

text \<open>
  C17. Typing: whatever bytes are injected and whatever handlers answer, a message that a worker
  takes up has a well-formed origin and destination; its handler is given a well-formed origin,
  whose instance address exists (the slice that computes it does not panic), the middleware a
  sender's name that is not empty; and every envelope handed to the federation server has
  well-formed addresses.
\<close>

theorem messages_well_typed:
  assumes "reachable L cap may p0 p" "threads_inv (p_threads p0)" "p_egress p0 = []"
  shows "(take_message i (p_fan p) = Some (rm, f') \<longrightarrow>
      wf_address (hc_from (context_of rm)) \<and> dm_from (dispatch_meta_of rm) \<noteq> [] \<and>
      (\<exists>a. instance_address (hc_from (context_of rm)) = Ok a) \<and>
      pred_option wf_address (m_to (e_meta (rm_envelope rm)))) \<and>
    (env \<in> set (p_egress p) \<longrightarrow> wf_address (m_from (e_meta env)) \<and> pred_option wf_address (m_to (e_meta env)))"
proof (intro conjI impI)
  from typed_reachable [OF assms] have inv: "base_inv p" "gate_inv p" "env_inv L typed_env p" by simp_all
  show "wf_address (m_from (e_meta env))" "pred_option wf_address (m_to (e_meta env))" if "env \<in> set (p_egress p)"
    using that inv(3) unfolding env_inv_def staged_def typed_env_def by blast+
  assume "take_message i (p_fan p) = Some (rm, f')"
  from env_inv_taken(1) [OF inv this] have t: "typed_env (rm_envelope rm)" .
  then show "wf_address (hc_from (context_of rm))" "pred_option wf_address (m_to (e_meta (rm_envelope rm)))"
    by (simp_all add: typed_env_def context_of_def Let_def)
  with wf_address_organism(3) show "\<exists>a. instance_address (hc_from (context_of rm)) = Ok a" by blast
  show "dm_from (dispatch_meta_of rm) \<noteq> []"
    using typed_sender [OF t] by (simp add: dispatch_meta_of_def)
qed

theorem messages_well_typed_witness:
  "wf_address (hc_from (context_of demo_rm)) \<and> dm_from (dispatch_meta_of demo_rm) \<noteq> []"
proof -
  obtain f where f: "take_message 0 (p_fan demo8) = Some (demo_rm, f)"
    using demo_taken by blast
  from messages_well_typed [OF demo_runs(2) demo_threads_ok(1,3), of 0 demo_rm f] f show ?thesis by blast
qed

text \<open>
  C36. Identities are stamped: under every interleaving, the origin of a message that a worker takes
  up, and of an envelope handed to the federation server, is that of an injected message or the
  flat name of a registered listener; the one exception is the acknowledgement of a spawn, which
  goes to a registered listener.  So a handler cannot speak in another's name.  (The listeners'
  names have no dots, brackets or white space at their ends.)
\<close>

theorem identities_stamped:
  assumes "xml_laws L" "escape_laws L" "reachable L cap may p0 p" "threads_inv (p_threads p0)" "p_egress p0 = []"
    and "registry_wf (p_registry p0)" "\<forall>n. get_handler (p_registry p0) n \<noteq> None \<longrightarrow> plain_name n \<and> meta_text n"
    and "take_message i (p_fan p) = Some (rm, f') \<and> env = rm_envelope rm \<or> env \<in> set (p_egress p)"
  shows "(\<exists>raw e. may raw \<and> decode_envelope L raw = Ok e \<and> m_from (e_meta env) = m_from (e_meta e)) \<or>
    (\<exists>n. get_handler (p_registry p0) n \<noteq> None \<and> m_from (e_meta env) = flat n) \<or>
    (\<exists>n. get_handler (p_registry p0) n \<noteq> None \<and> m_to (e_meta env) = Some (flat n) \<and> pl_tag (e_payload env) = ''SpawnAck'')"
proof -
  have inv: "base_inv p" "gate_inv p" "env_inv L (stamped L may (p_registry p0)) p"
    using stamped_reachable [OF assms(1-6)] assms(7) by (simp_all add: listener_names_ok_def)
  from assms(8) have "stamped L may (p_registry p0) env"
  proof
    assume "take_message i (p_fan p) = Some (rm, f') \<and> env = rm_envelope rm"
    then show ?thesis using env_inv_taken(1) [OF inv] by blast
  next
    assume "env \<in> set (p_egress p)"
    then show ?thesis using inv(3) unfolding env_inv_def staged_def by blast
  qed
  then show ?thesis unfolding stamped_def .
qed

theorem identities_stamped_witness: "stamped sample_lib (\<lambda>raw. raw = demo_raw) demo_registry demo_env"
proof -
  obtain f where f: "take_message 0 (p_fan demo8) = Some (demo_rm, f)"
    using demo_taken by blast
  then have taken: "take_message 0 (p_fan demo8) = Some (demo_rm, f) \<and> demo_env = rm_envelope demo_rm \<or> demo_env \<in> set (p_egress demo8)"
    by (simp add: demo_rm_def)
  have run: "reachable sample_lib 1 (\<lambda>raw. raw = demo_raw) demo_start demo8"
    by (rule demo_reachable) simp
  have names: "\<forall>n. get_handler (p_registry demo_start) n \<noteq> None \<longrightarrow> plain_name n \<and> meta_text n"
    by (simp add: demo_threads_ok demo_registry_def registry_register_def registry_new_def get_handler_def
        meta_text_printable code_def)
  have wf: "registry_wf (p_registry demo_start)"
    using demo_registry_wf by (simp add: demo_threads_ok)
  from identities_stamped [OF sample_xml_laws sample_escape_laws run demo_threads_ok(1,3) wf names taken]
  show ?thesis
    unfolding stamped_def demo_threads_ok(4) .
qed

section \<open>Calls and responses\<close>

text \<open>
  C6. Calls return: after a permitted \<open>Send\<close> on a thread that is part of a call chain, whatever
  the pipeline routes and processes in between, a reply on the thread the call opened goes to the
  last hop of the caller's chain, on the caller's own thread, and leaves the registry as it is.
\<close>

theorem calls_return:
  assumes "threads_inv r" "uuid_to_chain r f = None"
    and "uuid_to_chain r (thread_of msg) = Some c" "CHR ''.'' \<in> set c"
    and "organism to = Some hop" "CHR ''.'' \<notin> set hop"
    and "enforce_peers (lr_routing (dx_registry dx)) (rm_target msg) hop = Ok ()"
    and "respond L dx r f msg (HSend to pl) = (r1, acts)"
    and "evolves L dx fed r1 r2"
    and "thread_of msg' = fst (extend_chain r f (thread_of msg) hop)"
    and "respond L dx r2 g msg' (HReply pl') = (r3, acts')" and "xml_laws L"
  shows "sends acts' = map (\<lambda>env. bytes_of L (envelope_events L env))
      [envelope_from (rm_target msg') (flat (last (split_on CHR ''.'' c))) (thread_of msg) (prov_of msg') pl'] \<and>
    r3 = r2"
proof -
  have r1: "r1 = response_threads dx r f msg (HSend to pl)"
    using respond_threads [OF assms(8)] .
  have t: "thread_of msg' = m_thread (e_meta (hd (response_envelopes dx r f msg (HSend to pl))))"
    using assms(5,7,10) by (simp add: name_or_empty_def envelope_from_def)
  from call_reply [OF assms(1-7) assms(9) [unfolded r1] t, of g pl']
  show ?thesis
    using respond_threads [OF assms(11)] respond_sends [OF assms(12,11)] by simp
qed

theorem calls_return_witness:
  "\<exists>r1 acts r3 acts'.
     respond sample_lib (dispatch_ctx_of demo7) demo_threads ''t2'' demo_rm (HSend (flat ''bob'') ack_payload) = (r1, acts) \<and>
     respond sample_lib (dispatch_ctx_of demo7) r1 ''t3'' bob_rm (HReply ack_payload) = (r3, acts') \<and>
     length (sends acts') = 1"
proof -
  let ?dx = "dispatch_ctx_of demo7"
  obtain r1 acts where s: "respond sample_lib ?dx demo_threads ''t2'' demo_rm (HSend (flat ''bob'') ack_payload) = (r1, acts)"
    by fastforce
  obtain r3 acts' where r: "respond sample_lib ?dx r1 ''t3'' bob_rm (HReply ack_payload) = (r3, acts')"
    by fastforce
  have th: "threads_inv demo_threads" "uuid_to_chain demo_threads ''t2'' = None"
      "uuid_to_chain demo_threads (thread_of demo_rm) = Some ''alice.echo''"
    by (auto simp: demo_threads_def demo_rm_def demo_env_def thread_new_def
        intro!: threads_inv_bind threads_inv_new [unfolded thread_new_def])
  have peers: "enforce_peers (lr_routing (dx_registry ?dx)) (rm_target demo_rm) ''bob'' = Ok ()"
    by (simp add: dispatch_ctx_of_def demo_states demo_peers)
  have bob: "thread_of bob_rm = fst (extend_chain demo_threads ''t2'' (thread_of demo_rm) ''bob'')"
    by (simp add: bob_rm_def extend_chain_def demo_rm_def demo_env_def demo_threads_def thread_new_def)
  from calls_return [OF th _ _ _ peers s evolves.stay bob r sample_xml_laws] s r show ?thesis
    by auto
qed

text \<open>
  C11. What a response sends: at most two messages, each encoding an envelope with the inbound
  provenance, the first from the listener that handled the message; only the acknowledgement of
  a spawn names another sender (the callee), and it goes to the listener itself.
\<close>

theorem responses_carry_provenance:
  assumes "xml_laws L" "respond L dx threads fresh msg r = (threads', acts)"
  shows "length (sends acts) \<le> 2 \<and>
    (\<forall>raw \<in> set (sends acts). \<exists>env. encode_envelope L env = Ok raw \<and>
       m_provenance (e_meta env) = m_provenance (e_meta (rm_envelope msg)) \<and>
       (m_from (e_meta env) = flat (rm_target msg) \<or>
        m_to (e_meta env) = Some (flat (rm_target msg)) \<and> (\<exists>ok. e_payload env = spawn_ack ok)))"
  using respond_sends [OF assms] response_count [of dx threads fresh msg r] response_provenance response_from
    encode_envelope_bytes [OF assms(1)]
  by (simp only: length_map set_map) blast

theorem responses_carry_provenance_witness:
  "\<exists>threads' acts. respond sample_lib (dispatch_ctx_of demo7) demo_threads ''t2'' demo_rm (HReply (e_payload demo_env)) = (threads', acts) \<and>
     length (sends acts) \<le> 2"
proof -
  obtain threads' acts where p: "respond sample_lib (dispatch_ctx_of demo7) demo_threads ''t2'' demo_rm (HReply (e_payload demo_env)) = (threads', acts)"
    by fastforce
  from responses_carry_provenance [OF sample_xml_laws p] p show ?thesis by blast
qed

text \<open>
  C12. Peer gate on responses: a \<open>Send\<close> to a listener that is not a peer of the agent sends
  nothing and opens no thread; a \<open>Spawn\<close> to it opens no thread and sends only the
  acknowledgement, which says it was not accepted.
\<close>

theorem response_peer_gate:
  assumes "xml_laws L"
    and "by_name (lr_routing (dx_registry dx)) (rm_target msg) = Some e" "le_is_agent e"
    and "name_or_empty (organism to) \<notin> set (le_peers e)"
  shows "respond L dx threads fresh msg (HSend to pl) = (threads, []) \<and>
    (\<exists>acts. respond L dx threads fresh msg (HSpawn to pl) = (threads, acts) \<and>
       sends acts = map (\<lambda>env. bytes_of L (envelope_events L env))
         [envelope_from (name_or_empty (organism to)) (flat (rm_target msg)) (thread_of msg) (prov_of msg) (spawn_ack False)])"
proof -
  have refused: "enforce_peers (lr_routing (dx_registry dx)) (rm_target msg) (name_or_empty (organism to)) =
      Err (PeerViolation (rm_target msg) (name_or_empty (organism to)) (le_peers e))"
    using assms(2-4) by (simp add: enforce_peers_Err)
  have "respond L dx threads fresh msg (HSend to pl) = (threads, [])"
    by (simp add: respond_send_def Let_def refused)
  moreover obtain threads' acts where s: "respond L dx threads fresh msg (HSpawn to pl) = (threads', acts)"
    by fastforce
  ultimately show ?thesis
    using respond_threads [OF s] respond_sends [OF assms(1) s] s refused by (auto simp: Let_def)
qed

theorem response_peer_gate_witness:
  "respond sample_lib agent_ctx thread_new ''t2'' demo_rm (HSend (flat ''carol'') ack_payload) = (thread_new, [])"
  using response_peer_gate [OF sample_xml_laws, of agent_ctx demo_rm "listener_of (''echo'', ''Greeting'', True, [''bob''], [])"
      "flat ''carol''" thread_new "''t2''" ack_payload]
  by (simp add: agent_ctx_by_name demo_rm_def listener_of_def name_or_empty_def)

text \<open>
  Responses re-enter intact: what a well-formed response sends comes back through the parse
  stage as the very envelope it stood for (in normal form), in the order it was sent.
\<close>

theorem responses_reenter:
  assumes "xml_laws L" "escape_laws L" "respond L dx threads fresh msg r = (threads', acts)"
    and "\<forall>env \<in> set (response_envelopes dx threads fresh msg r). wf_envelope L env"
  shows "map (parse_msg_stage L) (sends acts) = map (\<lambda>env. Ok (norm_envelope env)) (response_envelopes dx threads fresh msg r)"
proof -
  have "parse_msg_stage L (bytes_of L (envelope_events L env)) = Ok (norm_envelope env)"
    if "env \<in> set (response_envelopes dx threads fresh msg r)" for env
    using decode_encode_env [OF assms(1,2), of env] assms(4) that
    by (simp add: parse_msg_stage_def encode_envelope_bytes [OF assms(1)])
  then show ?thesis
    by (simp add: respond_sends [OF assms(1,3)])
qed

theorem responses_reenter_witness:
  "\<exists>threads' acts. respond sample_lib (dispatch_ctx_of demo7) demo_threads ''t2'' demo_rm (HReply (e_payload demo_env)) = (threads', acts) \<and>
     map (parse_msg_stage sample_lib) (sends acts) =
       [Ok (envelope_from ''echo'' (flat ''alice'') ''t2'' (from_bit 3) (e_payload demo_env))]"
proof -
  let ?dx = "dispatch_ctx_of demo7"
  obtain threads' acts where r: "respond sample_lib ?dx demo_threads ''t2'' demo_rm (HReply (e_payload demo_env)) = (threads', acts)"
    by fastforce
  have "\<forall>env \<in> set (response_envelopes ?dx demo_threads ''t2'' demo_rm (HReply (e_payload demo_env))). wf_envelope sample_lib env"
    unfolding demo_reply using demo_reply_wf by simp
  from responses_reenter [OF sample_xml_laws sample_escape_laws r this] r show ?thesis
    unfolding demo_reply by (auto simp: demo_reply_norm)
qed

section \<open>Two nodes\<close>

text \<open>
  C25. A hop between nodes: an envelope whose destination's leading segment is a registered peer is
  routed to the federation server and sent as one sealed frame to that peer's endpoint; the peer
  that shares the key delivers it into its own pipeline with the origin re-rooted on the sending
  node, the edge's provenance added, its own prefix stripped from the destination, the
  materializer's thread, and the payload as it was; and there it parses again.
\<close>

theorem federated_hop:
  assumes "aead_laws A" "xml_laws L" "escape_laws L" "wf_envelope L env"
    and "m_to (e_meta env) = Some to" "node to = Some n" "directory_get (fs_directory a) n = Some p"
    and "directory_get (fs_directory b) (fs_node a) = Some q" "peer_key q = peer_key p"
    and "length (fs_node a) < 65536" "utf8_valid (fs_node a)" "length nonce = 24"
    and "seal L A (Some nonce) env (fs_node a) (peer_key p) = Ok frame"
    and "fs_authorizer b (reroot_origin (m_from (e_meta env)) (fs_node a)) to = Ok ()"
    and "mat_resolve mat m (strip_node b to) = (Ok tid, m')" "ig_open g"
  shows "route_msg reg (Some \<lparr>fe_directory = fs_directory a\<rparr>) threads \<lparr>vm_envelope = env, vm_payload = vp\<rparr> = (Egress env, threads) \<and>
    fed_send L A (\<lambda>ep f sent. (Ok (), sent @ [(ep, f)])) a (Some nonce) env [] = (Ok (), [(peer_endpoint p, frame)]) \<and>
    (\<exists>bytes env'. fed_receive L A (sb_deliver L mat) b frame (m, g) = (Ok (), (m', g\<lparr>ig_sent := ig_sent g @ [bytes]\<rparr>)) \<and>
       m_from (e_meta env') = reroot_origin (m_from (e_meta env)) (fs_node a) \<and>
       m_to (e_meta env') = Some (strip_node b to) \<and> m_thread (e_meta env') = tid \<and>
       prov_set (m_provenance (e_meta env')) = prov_set (m_provenance (e_meta env)) \<union> prov_set (inbound_provenance q) \<and>
       e_payload env' = e_payload (norm_envelope env) \<and> encode_envelope L env' = Ok bytes \<and>
       (wf_envelope L env' \<longrightarrow> parse_msg_stage L bytes = Ok (norm_envelope env')))"
proof (intro conjI)
  from assms(6) obtain s rest where segs: "segments to = s # rest" "seg_name s = n"
    by (cases "segments to") (auto simp: node_def get_at_def)
  with assms(5,7) show "route_msg reg (Some \<lparr>fe_directory = fs_directory a\<rparr>) threads \<lparr>vm_envelope = env, vm_payload = vp\<rparr> = (Egress env, threads)"
    by (simp add: route_msg_def remote_to_def is_remote_def directory_get_def)
  from segs assms(5,7,13) show "fed_send L A (\<lambda>ep f sent. (Ok (), sent @ [(ep, f)])) a (Some nonce) env [] = (Ok (), [(peer_endpoint p, frame)])"
    by (simp add: fed_send_def)
  define e where "e = localize b (stamp_inbound b (fs_node a) (norm_envelope env))"
  define env' where "env' = e\<lparr>e_meta := (e_meta e)\<lparr>m_thread := tid\<rparr>\<rparr>"
  define bytes where "bytes = bytes_of L (envelope_events L env')"
  have opened: "open_frame L A frame (fs_directory b) = Ok (norm_envelope env, fs_node a)"
    using open_seal [OF assms(1) assms(13) [folded assms(9)] _ assms(10,11,8)] assms(12)
      decode_encode_env [OF assms(2-4)] by simp
  have meta: "e_meta (norm_envelope env) = e_meta env"
    by (simp add: norm_envelope_def)
  have enc: "encode_envelope L env' = Ok bytes"
    by (simp add: bytes_def encode_envelope_bytes assms(2))
  have "authorize_inbound b (stamp_inbound b (fs_node a) (norm_envelope env)) = Ok ()"
    using assms(5,14) by (simp add: authorize_inbound_def meta)
  moreover have "sb_deliver L mat e (m, g) = (Ok (), (m', g\<lparr>ig_sent := ig_sent g @ [bytes]\<rparr>))"
    using assms(5,15,16) enc
    by (simp add: sb_deliver_def sb_route_def e_def meta ingress_send_def env'_def Let_def)
  ultimately have "fed_receive L A (sb_deliver L mat) b frame (m, g) = (Ok (), (m', g\<lparr>ig_sent := ig_sent g @ [bytes]\<rparr>))"
    by (simp add: fed_receive_def opened e_def Let_def)
  moreover have "m_from (e_meta env') = reroot_origin (m_from (e_meta env)) (fs_node a)"
    "m_to (e_meta env') = Some (strip_node b to)" "m_thread (e_meta env') = tid"
    "e_payload env' = e_payload (norm_envelope env)"
    "prov_set (m_provenance (e_meta env')) = prov_set (m_provenance (e_meta env)) \<union> prov_set (inbound_provenance q)"
    using assms(5,8) by (simp_all add: env'_def e_def meta stamp_inbound_provenance)
  moreover have "parse_msg_stage L bytes = Ok (norm_envelope env')" if "wf_envelope L env'"
    using decode_encode_env [OF assms(2,3) that] enc by (simp add: parse_msg_stage_def)
  ultimately show "\<exists>bytes env'. fed_receive L A (sb_deliver L mat) b frame (m, g) = (Ok (), (m', g\<lparr>ig_sent := ig_sent g @ [bytes]\<rparr>)) \<and>
       m_from (e_meta env') = reroot_origin (m_from (e_meta env)) (fs_node a) \<and>
       m_to (e_meta env') = Some (strip_node b to) \<and> m_thread (e_meta env') = tid \<and>
       prov_set (m_provenance (e_meta env')) = prov_set (m_provenance (e_meta env)) \<union> prov_set (inbound_provenance q) \<and>
       e_payload env' = e_payload (norm_envelope env) \<and> encode_envelope L env' = Ok bytes \<and>
       (wf_envelope L env' \<longrightarrow> parse_msg_stage L bytes = Ok (norm_envelope env'))"
    using enc by blast
qed

theorem federated_hop_witness:
  "\<exists>bytes. fed_send sample_lib sample_aead (\<lambda>ep f sent. (Ok (), sent @ [(ep, f)])) ringhub_srv (Some (replicate 24 0)) root_env [] =
      (Ok (), [(''host'', root_frame)]) \<and>
    snd (snd (fed_receive sample_lib sample_aead (sb_deliver sample_lib sample_mat) sample_srv root_frame idle_board)) =
      \<lparr>ig_open = True, ig_sent = [bytes]\<rparr>"
proof -
  let ?p = "sample_peer\<lparr>peer_namespace := ''agentos''\<rparr>"
  have sealed: "seal sample_lib sample_aead (Some (replicate 24 0)) root_env (fs_node ringhub_srv) (peer_key ?p) = Ok root_frame"
    using root_sealed by (simp add: ringhub_srv_def)
  have dirs: "directory_get (fs_directory ringhub_srv) ''agentos'' = Some ?p"
      "directory_get (fs_directory sample_srv) (fs_node ringhub_srv) = Some sample_peer"
    by (simp_all add: ringhub_srv_def directory_get_def directory_register_def)
      (simp add: sample_srv_def sample_dir_def directory_register_def sample_peer_def)
  have to: "m_to (e_meta root_env) = Some (the (m_to (e_meta root_env)))" "node (the (m_to (e_meta root_env))) = Some ''agentos''"
    by (simp_all add: root_env_def node_def get_at_def)
  have rest: "peer_key sample_peer = peer_key ?p" "length (fs_node ringhub_srv) < 65536" "utf8_valid (fs_node ringhub_srv)"
      "length (replicate 24 0 :: u8 list) = 24"
    using ringhub_utf8 by (simp_all add: ringhub_srv_def)
  have host: "fs_authorizer sample_srv (reroot_origin (m_from (e_meta root_env)) (fs_node ringhub_srv)) (the (m_to (e_meta root_env))) = Ok ()"
      "mat_resolve sample_mat () (strip_node sample_srv (the (m_to (e_meta root_env)))) = (Ok ''inst-1'', ())"
      "ig_open \<lparr>ig_open = True, ig_sent = []\<rparr>"
    by (simp_all add: sample_srv_def allow_all_def sample_mat_def)
  have ep: "peer_endpoint ?p = ''host''" by (simp add: sample_peer_def)
  note hop = federated_hop [where reg = demo_registry and threads = thread_new and vp = "rm_payload demo_rm",
      OF sample_aead_laws sample_xml_laws sample_escape_laws root_wf to dirs rest sealed host]
  from hop obtain bytes where "fed_receive sample_lib sample_aead (sb_deliver sample_lib sample_mat) sample_srv root_frame idle_board =
      (Ok (), (), \<lparr>ig_open = True, ig_sent = [bytes]\<rparr>)"
    by (auto simp: idle_board_def)
  moreover from hop have "fed_send sample_lib sample_aead (\<lambda>ep f sent. (Ok (), sent @ [(ep, f)])) ringhub_srv (Some (replicate 24 0)) root_env [] =
      (Ok (), [(''host'', root_frame)])"
    unfolding ep by blast
  ultimately show ?thesis by simp
qed

section \<open>Middleware\<close>

text \<open>
  Middleware that records its calls: each passes, answers for the handler, fails or panics before
  the dispatch, and passes or fails after it.
\<close>

datatype mark = Pre nat | Handled | Post nat

datatype before = Pass | Answer handler_response | Fail pipeline_error | Crash

fun decide :: "before \<Rightarrow> (pre_verdict, pipeline_error) result" where
  "decide Pass = Ok Continue"
| "decide (Answer r) = Ok (ShortCircuit r)"
| "decide (Fail e) = Err e"
| "decide Crash = Panic"

definition log_mw :: "nat \<times> before \<times> bool \<Rightarrow> mark list middleware" where
  "log_mw = (\<lambda>(n, b, ok).
     \<lparr>mw_pre = (\<lambda>s m p. (decide b, s @ [Pre n])),
      mw_post = (\<lambda>s m p r. (if ok then Ok (PassThrough r) else Err (NoRoute []), s @ [Post n]))\<rparr>)"

definition log_handler :: "handler_result \<Rightarrow> mark list handler_impl" where
  "log_handler res = fn_handler (\<lambda>s p c. (res, s @ [Handled]))"

text \<open>The hooks called: those that pass, and the first that does not.\<close>

definition until_not :: "('a \<Rightarrow> bool) \<Rightarrow> 'a list \<Rightarrow> 'a list" where
  "until_not P xs = takeWhile P xs @ take 1 (dropWhile P xs)"

definition passing :: "nat \<times> before \<times> bool \<Rightarrow> bool" where
  "passing m \<longleftrightarrow> fst (snd m) = Pass"

definition after_ok :: "nat \<times> before \<times> bool \<Rightarrow> bool" where
  "after_ok m \<longleftrightarrow> snd (snd m)"

lemma log_pre:
  "pre_chain (map log_mw ms) meta p s =
    (case dropWhile passing ms of
       [] \<Rightarrow> Ok (p, None)
     | m # _ \<Rightarrow> (case fst (snd m) of Answer r \<Rightarrow> Ok (p, Some (Ok r)) | Fail e \<Rightarrow> Ok (p, Some (Err e)) | _ \<Rightarrow> Panic),
     s @ map (Pre \<circ> fst) (until_not passing ms))"
proof (induction ms arbitrary: s)
  case (Cons m ms)
  obtain n b ok where m: "m = (n, b, ok)" by (cases m)
  show ?case
    using Cons.IH by (cases b) (simp_all add: m log_mw_def passing_def until_not_def)
qed (simp add: until_not_def)

lemma log_post:
  "post_chain (map log_mw ms) meta p r s =
    (if list_all after_ok ms then Ok r else Err (HandlerError (Msg ''middleware post-dispatch error'' [])),
     s @ map (Post \<circ> fst) (until_not after_ok ms))"
proof (induction ms arbitrary: s)
  case (Cons m ms)
  obtain n b ok where m: "m = (n, b, ok)" by (cases m)
  show ?case
    using Cons.IH by (cases ok) (simp_all add: m log_mw_def after_ok_def until_not_def)
qed (simp add: until_not_def)


section \<open>Bounds and state\<close>

text \<open>
  C30. Backpressure: the four channels never hold more than their buffer, nor the federation
  channel more than its own.
\<close>

theorem channels_bounded:
  assumes "reachable L cap may p0 p" "p_egress p0 = []"
  shows "length (p_ingress p) \<le> 256 \<and> length (p_parsed p) \<le> 256 \<and> length (p_validated p) \<le> 256 \<and>
    length (p_routed p) \<le> 256 \<and> length (p_egress p) \<le> cap"
  using room_inv_reachable [OF assms] by (simp add: room_inv_def CHANNEL_BUFFER_def)

theorem channels_bounded_witness: "length (p_routed demo7) \<le> 256"
proof -
  have r: "reachable sample_lib 1 (\<lambda>_. True) demo_start demo7"
    by (rule demo_runs)
  from channels_bounded [OF r demo_threads_ok(3)] show ?thesis by blast
qed

text \<open>
  C31. The thread registry in the running pipeline: its two maps stay inverse to each other, and
  no step rebinds or forgets a thread whose chain has a hop (a call in progress).
\<close>

theorem running_threads:
  assumes "reachable L cap may p0 p" "threads_inv (p_threads p0)" "pstep L cap may p p'"
  shows "(chain_to_uuid (p_threads p) c = Some u \<longleftrightarrow> uuid_to_chain (p_threads p) u = Some c) \<and>
    (uuid_to_chain (p_threads p) t = Some d \<and> CHR ''.'' \<in> set d \<longrightarrow> uuid_to_chain (p_threads p') t = Some d)"
proof -
  have inv: "threads_inv (p_threads p)"
    using base_inv_reachable [OF assms(1,2)] by (simp add: base_inv_def)
  from assms(3) have "keeps_calls (p_threads p) (p_threads p')"
  proof (cases rule: pstep_cases)
    case work
    from evolves_keeps [OF pwork_threads [OF work] inv] show ?thesis by simp
  next
    case (outside xs es c b)
    then show ?thesis by simp
  qed
  with inv show ?thesis
    by (simp add: threads_inv_def keeps_calls_def)
qed

theorem running_threads_witness:
  "uuid_to_chain (p_threads demo8) ''t1'' = Some ''alice.echo''"
proof -
  have r: "reachable sample_lib 1 (\<lambda>_. True) demo_start demo7"
    by (rule demo_runs)
  have s: "pstep sample_lib 1 (\<lambda>_. True) demo7 demo8"
    by (rule pstep.work [OF pwork.dispatch_recv [OF demo_steps(8)]])
  have "uuid_to_chain (p_threads demo7) ''t1'' = Some ''alice.echo''"
    by (simp add: demo7_def demo6_def demo_threads_def)
  with running_threads [OF r demo_threads_ok(1) s, of _ _ "''t1''" "''alice.echo''"] show ?thesis by simp
qed

text \<open>
  C35. Registration is consistent: after any sequence of registrations, every listener that a route
  resolves to (the first, to which the message goes, included) has a handler: the one of the last
  registration under its name, whose agent flag and peers are the ones in force for it.
\<close>

theorem registered_routes_have_handlers:
  assumes "resolve (lr_routing (foldl add_listener registry_new ls)) to tag = Ok es"
  shows "es \<noteq> [] \<and> (\<forall>e \<in> set es. \<exists>before l later. ls = before @ l # later \<and>
    rg_name l = le_name e \<and> (\<forall>l' \<in> set later. rg_name l' \<noteq> le_name e) \<and>
    get_handler (foldl add_listener registry_new ls) (le_name e) = Some (rg_handler l) \<and>
    listener_info (foldl add_listener registry_new ls) (le_name e) = Some (rg_tag l, rg_is_agent l, rg_peers l))"
proof (intro conjI ballI)
  show "es \<noteq> []"
    using assms by (rule resolve_nonempty)
next
  fix e assume "e \<in> set es"
  with resolved_have_handlers [OF registry_wf_adds [OF registry_wf_new] assms]
  obtain h where h: "get_handler (foldl add_listener registry_new ls) (le_name e) = Some h" by blast
  from handler_table.get_puts_cases [OF h] have "\<exists>l \<in> set ls. rg_name l = le_name e"
    by (auto simp: get_handler_def registry_new_def)
  from split_list_last_prop [OF this] obtain before l later
    where l: "ls = before @ l # later" "rg_name l = le_name e" "\<forall>l' \<in> set later. rg_name l' \<noteq> le_name e" by blast
  with handler_table.get_puts_last [of later l registry_new before] info_table.get_puts_last [of later l registry_new before]
  show "\<exists>before l later. ls = before @ l # later \<and> rg_name l = le_name e \<and> (\<forall>l' \<in> set later. rg_name l' \<noteq> le_name e) \<and>
      get_handler (foldl add_listener registry_new ls) (le_name e) = Some (rg_handler l) \<and>
      listener_info (foldl add_listener registry_new ls) (le_name e) = Some (rg_tag l, rg_is_agent l, rg_peers l)"
    by (intro exI [of _ before] exI [of _ l] exI [of _ later]) simp
qed

theorem registered_routes_have_handlers_witness:
  "get_handler demo_registry ''echo'' = Some echo_handler"
proof -
  have d: "demo_registry = foldl add_listener registry_new [\<lparr>rg_name = ''echo'', rg_tag = ''Greeting'',
      rg_handler = echo_handler, rg_is_agent = False, rg_peers = [], rg_description = ''Echo handler'', rg_schema = None\<rparr>]"
    by (simp add: add_listener_def demo_registry_def)
  from registered_routes_have_handlers [OF demo_resolve [unfolded d]] show ?thesis
    by (auto simp: d listener_of_def Cons_eq_append_conv)
qed

section \<open>Where the code differs from its documentation\<close>

text \<open>
  C32. A second thread between the same two parties stays unknown: when the chain that routing would
  register for it (below the root, once the root thread is initialized) already belongs to another
  thread, routing ignores the id it is given back, and a reply on the second thread is dropped in
  silence.
\<close>

theorem second_thread_silent:
  assumes "xml_laws L" "route_msg reg fed threads vm = (Routed rm, threads')"
    and "uuid_to_chain threads (thread_of rm) = None"
    and "chain_to_uuid threads ((if root_uuid threads = None then [] else root_chain threads @ ''.'') @
      sender_name (vm_envelope vm) @ ''.'' @ rm_target rm) = Some other"
    and "respond L dx threads' fresh rm (HReply pl) = (threads'', acts)"
  shows "sends acts = [] \<and> uuid_to_chain threads' (thread_of rm) = None"
proof -
  have "uuid_to_chain threads' (thread_of rm) = None"
    using route_binds [OF assms(2) refl] assms(3,4) by (cases "root_uuid threads") simp_all
  with unknown_thread_silent [OF this, of dx fresh pl] respond_sends [OF assms(1,5)] show ?thesis by simp
qed

theorem second_thread_silent_witness:
  "\<exists>threads'' acts. respond sample_lib (dispatch_ctx_of demo7) other_threads ''t3'' demo_rm (HReply ack_payload) = (threads'', acts) \<and>
     sends acts = []"
proof -
  obtain threads'' acts where r: "respond sample_lib (dispatch_ctx_of demo7) other_threads ''t3'' demo_rm (HReply ack_payload) = (threads'', acts)"
    by fastforce
  have t: "thread_of demo_rm = ''t1''" "sender_name (vm_envelope demo_vm) = ''alice''" "rm_target demo_rm = ''echo''"
    by (simp_all add: demo_rm_def demo_vm_def demo_env_def sender_name_def name_or_empty_def)
  have "uuid_to_chain other_threads (thread_of demo_rm) = None"
    "chain_to_uuid other_threads ((if root_uuid other_threads = None then [] else root_chain other_threads @ ''.'') @
       sender_name (vm_envelope demo_vm) @ ''.'' @ rm_target demo_rm) = Some ''t0''"
    by (simp_all add: t) (simp_all add: other_threads_def initialize_root_def thread_new_def)
  from second_thread_silent [OF sample_xml_laws demo_route_other this r] r show ?thesis by blast
qed

text \<open>
  C33. Replies are gated too: the reply of an agent to a local caller that is not among its declared
  peers is refused at the route stage, although it only answers a call.
\<close>

theorem agent_reply_refused:
  assumes "by_name (lr_routing reg) n = Some e" "le_is_agent e" "\<And>f. fed = Some f \<Longrightarrow> \<not> is_remote (fe_directory f) caller"
    and "vm_envelope vm = envelope_from n (flat caller) tid prov pl"
    and "resolve (lr_routing reg) (Some caller) (pl_tag pl) = Ok es" "le_name (es ! 0) \<notin> set (le_peers e)"
  shows "route_msg reg fed threads vm = (Dropped (PeerViolation n (le_name (es ! 0)) (le_peers e)), threads)"
proof -
  have "enforce_peers (lr_routing reg) n (le_name (es ! 0)) = Err (PeerViolation n (le_name (es ! 0)) (le_peers e))"
    using assms(1,2,6) by (simp add: enforce_peers_Err)
  then show ?thesis
    using assms(3,5) by (cases fed)
      (simp_all add: route_msg_def assms(4) envelope_from_def remote_to_def sender_name_def name_or_empty_def Let_def)
qed

theorem agent_reply_refused_witness:
  "\<exists>e. route_msg (dx_registry agent_ctx) None thread_new
     \<lparr>vm_envelope = envelope_from ''echo'' (flat ''echo'') ''t9'' EMPTY (e_payload demo_env), vm_payload = vm_payload demo_vm\<rparr> =
     (Dropped e, thread_new)"
  using agent_reply_refused [OF agent_ctx_by_name _ _ _ agent_ctx_resolve, of None
      "\<lparr>vm_envelope = envelope_from ''echo'' (flat ''echo'') ''t9'' EMPTY (e_payload demo_env), vm_payload = vm_payload demo_vm\<rparr>"
      "''t9''" EMPTY thread_new]
  by (simp add: listener_of_def demo_env_def payload_single_def)

text \<open>
  C34. A panicking handler loses messages, not the thread: the worker dies with its queue, so what
  was already handed over behind the message is never processed, the thread registry is as before,
  and the next message handed over for the thread waits, alone, in the queue of a new worker.
\<close>

theorem panic_loses_queue:
  assumes "next_action i (p_fan p) = Some (Some (ARun rm), f)" "tasks (p_fan p) i = Some w"
    and "handle_message (dispatch_ctx_of p) rm (p_host p) = (Some Panic, s')" "fan_inv (p_fan p)"
  shows "\<exists>p'. worker_run i p = Some p' \<and> tasks (p_fan p') i = None \<and>
    fo_lost (p_fan p') = fo_lost (p_fan p) @ map (Pair (wk_key w)) (wk_queue w) \<and> p_threads p' = p_threads p \<and>
    queue_of (handoff (wk_key w) m (p_fan p')) (wk_key w) = [m]"
proof -
  from assms(1,2) obtain as where f: "f = (p_fan p)\<lparr>tasks := (tasks (p_fan p))(i \<mapsto> w\<lparr>wk_state := Busy as\<rparr>)\<rparr>"
    by (auto simp: next_action_Some)
  have inv: "fan_inv f" "fan_inv (worker_dies i f)"
    using fan_inv_step [OF fan_step.intros(4) [OF assms(1)] assms(4)] fan_inv_step [OF fan_step.intros(7)] by blast+
  have "tq_waiting (queues_of (worker_dies i f)) (wk_key w) = []"
    using queues_of_dies [OF inv(1), of i "w\<lparr>wk_state := Busy as\<rparr>"] by (simp add: f tq_crash_def)
  with inv(2) have "queue_of (handoff (wk_key w) m (worker_dies i f)) (wk_key w) = [m]"
    by (simp add: queue_of_handoff queues_of_def)
  with assms f show ?thesis
    by (simp add: worker_run_def) (simp add: worker_dies_def)
qed

theorem panic_loses_queue_witness:
  "\<exists>p'. worker_run 0 panic_pipeline = Some p' \<and> fo_lost (p_fan p') = [(''t1'', demo_rm)]"
proof -
  obtain f where n: "next_action 0 (p_fan panic_pipeline) = Some (Some (ARun demo_rm), f)"
    by (simp add: panic_pipeline_def next_action_def)
  have w: "tasks (p_fan panic_pipeline) 0 = Some \<lparr>wk_key = ''t1'', wk_queue = [demo_rm], wk_state = Busy [ARun demo_rm]\<rparr>"
    by (simp add: panic_pipeline_def)
  have "fan_inv (p_fan panic_pipeline)"
    by (simp add: panic_pipeline_def fan_inv_def)
  from panic_loses_queue [OF n w panic_handled this] show ?thesis
    by (auto simp: panic_pipeline_def)
qed

section \<open>Shutdown\<close>

text \<open>
  C37. Shutdown ends: once the parse stage has stopped it stays stopped, and the pipeline's own
  tasks take at most as many further steps as the work left amounts to: up to 17 for each message
  between the stages, 9 for each queued in a worker, and a few for each worker and stage.  When
  they can take no more (and the route stage does not wait for the federation server), all stages
  have ended, so that \<open>shutdown\<close> returns, no message is left between the stages or in a worker,
  and every worker has been reaped.
\<close>

theorem shutdown_terminates:
  assumes "reachable L cap may p0 p" "threads_inv (p_threads p0)" "threads_finite (p_threads p0)"
    and "\<not> p_parse_up p" "(pwork L cap ^^ n) p p'"
  shows "n \<le> drain_load p \<and> \<not> p_parse_up p' \<and>
    (\<not> (\<exists>q. pwork L cap p' q) \<and> \<not> egress_blocked cap p' \<longrightarrow>
       shutdown_returns p' \<and> \<not> has_work p' \<and> tasks (p_fan p') = Map.empty)"
proof -
  have steps: "n \<le> drain_load p" "\<not> p_parse_up p'"
    using drain_steps [OF assms(5,4) base_inv_reachable [OF assms(1,2)]] by simp_all
  have r: "reachable L cap may p0 p'"
    using reachable_work [OF assms(5,1)] .
  show ?thesis
    using steps drained [OF stopped_inv_reachable [OF r] finite_reachable [OF r assms(3)] steps(2)]
    unfolding shutdown_returns_def by blast
qed

theorem shutdown_terminates_witness:
  "1 \<le> drain_load stop1 \<and> shutdown_returns stop3 \<and> \<not> has_work stop3"
proof -
  have s: "(pwork sample_lib 1 ^^ 1) stop1 stop2"
    using pwork.validate_end [OF stop_steps(2)] by (simp only: relpowp_1)
  have "\<not> p_parse_up stop1" "\<not> p_parse_up stop3" "\<not> egress_blocked 1 stop3"
    by (simp_all add: stop1_def egress_blocked_def)
  moreover have "(pwork sample_lib 1 ^^ 0) stop3 stop3"
    by simp
  ultimately show ?thesis
    using shutdown_terminates [OF stop_runs(1) demo_threads_ok(1,2) _ s]
      shutdown_terminates [OF stop_runs(2) demo_threads_ok(1,2), of 0 stop3] stop3_stuck by blast
qed

section \<open>Robustness and supervision\<close>

text \<open>
  C39. One message can stop the pipeline for good: when decoding it panics, the parse stage's task
  dies, what was waiting in the ingress is dropped, and whatever happens afterwards every
  injection is refused.
\<close>

theorem poison_stops_pipeline:
  assumes "decode_envelope L raw = Panic"
    and "p_ingress p = raw # rest" "p_parse_up p" "p_parse_hold p = None"
    and "parse_recv L p = Some p1" "(pstep L cap may)\<^sup>*\<^sup>* p1 p2"
  shows "\<not> p_parse_up p2 \<and> p_ingress p2 = [] \<and>
    inject m p2 = Some (Err (HandlerError (Msg ''pipeline shut down'' [])), p2)"
proof -
  have "p1 = p\<lparr>p_ingress := [], p_parse_up := False\<rparr>"
    using assms(1-5) by (simp add: parse_recv_def parse_msg_stage_def)
  with down_steps [OF assms(6)] show ?thesis
    by (simp add: inject_def)
qed

definition poison :: "u8 list" where
  "poison = bytes_of sample_lib (XStart ''message'' [] # XStart ''payload'' [] #
     scalar_events sample_lib ''blob'' split_char @ [XEnd ''payload'', XEnd ''message''])"

theorem poison_stops_pipeline_witness:
  "\<exists>p1. parse_recv sample_lib ((pipeline_run demo_start)\<lparr>p_ingress := [poison]\<rparr>) = Some p1 \<and>
     (\<exists>e. inject demo_raw p1 = Some (Err e, p1))"
proof -
  let ?p = "(pipeline_run demo_start)\<lparr>p_ingress := [poison]\<rparr>"
  have d: "decode_envelope sample_lib poison = Panic"
    using decode_blob_panics [OF sample_xml_laws sample_escape_laws, of split_char] split_char_panics
    by (simp add: poison_def split_char_facts text_ok_def)
  have p: "p_ingress ?p = [poison]" "p_parse_up ?p" "p_parse_hold ?p = None"
    by (simp_all add: pipeline_run_def)
  obtain p1 where r: "parse_recv sample_lib ?p = Some p1"
    using d p by (simp add: parse_recv_def parse_msg_stage_def)
  from poison_stops_pipeline [OF d p r rtranclp.rtrancl_refl, of demo_raw] r show ?thesis
    by blast
qed

text \<open>
  C40. The observer can hear the end of a call before its beginning: there is a run in which the
  closing of an edge is reported first and the opening of that edge afterwards, because the
  caller's worker reports the edge only after the call has been sent and the callee may answer in
  between.
\<close>

theorem observer_hears_close_first:
  "\<exists>p. reachable sample_lib 1 (\<lambda>raw. raw = race_raw ask_env) race_start p \<and>
     p_events p = [AClose ''t2'', AOpen ''front'' ''echo'' ''t2'' Sync]"
  by (rule race_closed_first)

end
